theory Spec2Isabelle
  imports Complex_Main
begin

text \<open>
  The store-rating application: the tables, constraints, trigger, policies and view of its two
  migrations, and the handlers of its dashboards that write and read ratings.
\<close>

section \<open>Data model of the migration\<close>

text \<open>
  The three tables of \<^verbatim>\<open>supabase/migrations/20250822095327_...sql\<close> as lists of rows.
  Identifiers (\<^verbatim>\<open>UUID\<close>) and timestamps are natural numbers; \<^verbatim>\<open>TEXT\<close> is \<open>string\<close>;
  a column declared \<^verbatim>\<open>NOT NULL\<close> has a plain type, a nullable column an \<open>option\<close>
  type (\<open>None\<close> is SQL \<^verbatim>\<open>NULL\<close>).  Values produced by \<^verbatim>\<open>gen_random_uuid()\<close> and
  \<^verbatim>\<open>now()\<close> are passed to the operations by their caller.
\<close>

type_synonym uuid = nat
type_synonym timestamptz = nat

datatype user_role = admin | normal_user | store_owner

datatype jsonv = JNull | JText string

record auth_user =
  au_id :: uuid
  au_email :: string
  au_raw_user_meta_data :: "(string \<times> jsonv) list option"

record profile =
  p_id :: uuid
  p_user_id :: uuid
  p_name :: string
  p_email :: string
  p_address :: "string option"
  p_role :: user_role
  p_created_at :: timestamptz
  p_updated_at :: timestamptz

record store =
  s_id :: uuid
  s_owner_id :: uuid
  s_name :: string
  s_email :: string
  s_address :: string
  s_created_at :: timestamptz
  s_updated_at :: timestamptz

record rating =
  r_id :: uuid
  r_user_id :: uuid
  r_store_id :: uuid
  r_rating :: int
  r_created_at :: timestamptz
  r_updated_at :: timestamptz

record db =
  auth_users :: "auth_user list"
  profiles :: "profile list"
  stores :: "store list"
  ratings :: "rating list"

definition empty_db :: db where
  "empty_db = \<lparr>auth_users = [], profiles = [], stores = [], ratings = []\<rparr>"

text \<open>
  The constraints the migration declares, under the names PostgreSQL gives them, and the
  errors a statement can end with.
\<close>

datatype constraint_name =
    users_pkey
  | profiles_pkey | profiles_user_id_key | profiles_user_id_fkey
  | profiles_name_check | profiles_address_check
  | stores_pkey | stores_owner_id_fkey | stores_name_check | stores_address_check
  | ratings_pkey | ratings_user_id_fkey | ratings_store_id_fkey
  | ratings_rating_check | ratings_user_id_store_id_key

datatype relation = rel_profiles | rel_stores | rel_ratings

datatype error =
    check_violation constraint_name
  | unique_violation constraint_name
  | foreign_key_violation constraint_name
  | invalid_text_representation string
  | insufficient_privilege relation
  | infinite_recursion relation

section \<open>Table constraints\<close>

text \<open>
  What every write has to pass whoever issues it: the \<^verbatim>\<open>CHECK\<close> constraints first, then
  the unique indexes, then the foreign keys.  A failed statement leaves the database as it
  was, so an operation returns either the error or the new database.
\<close>

definition profiles_insert :: "db \<Rightarrow> profile \<Rightarrow> error + db" where
  "profiles_insert d p =
    (if \<not> (case p_address p of None \<Rightarrow> True | Some a \<Rightarrow> length a \<le> 400)
       then Inl (check_violation profiles_address_check)
     else if \<not> (length (p_name p) \<ge> 20 \<and> length (p_name p) \<le> 60)
       then Inl (check_violation profiles_name_check)
     else if p_id p \<in> set (map p_id (profiles d))
       then Inl (unique_violation profiles_pkey)
     else if p_user_id p \<in> set (map p_user_id (profiles d))
       then Inl (unique_violation profiles_user_id_key)
     else if p_user_id p \<notin> set (map au_id (auth_users d))
       then Inl (foreign_key_violation profiles_user_id_fkey)
     else Inr (d\<lparr>profiles := profiles d @ [p]\<rparr>))"

definition stores_insert :: "db \<Rightarrow> store \<Rightarrow> error + db" where
  "stores_insert d s =
    (if \<not> (length (s_address s) \<le> 400)
       then Inl (check_violation stores_address_check)
     else if \<not> (length (s_name s) \<ge> 20 \<and> length (s_name s) \<le> 60)
       then Inl (check_violation stores_name_check)
     else if s_id s \<in> set (map s_id (stores d))
       then Inl (unique_violation stores_pkey)
     else if s_owner_id s \<notin> set (map p_id (profiles d))
       then Inl (foreign_key_violation stores_owner_id_fkey)
     else Inr (d\<lparr>stores := stores d @ [s]\<rparr>))"

definition ratings_insert :: "db \<Rightarrow> rating \<Rightarrow> error + db" where
  "ratings_insert d r =
    (if \<not> (r_rating r \<ge> 1 \<and> r_rating r \<le> 5)
       then Inl (check_violation ratings_rating_check)
     else if r_id r \<in> set (map r_id (ratings d))
       then Inl (unique_violation ratings_pkey)
     else if (r_user_id r, r_store_id r) \<in> set (map (\<lambda>x. (r_user_id x, r_store_id x)) (ratings d))
       then Inl (unique_violation ratings_user_id_store_id_key)
     else if r_user_id r \<notin> set (map p_id (profiles d))
       then Inl (foreign_key_violation ratings_user_id_fkey)
     else if r_store_id r \<notin> set (map s_id (stores d))
       then Inl (foreign_key_violation ratings_store_id_fkey)
     else Inr (d\<lparr>ratings := ratings d @ [r]\<rparr>))"

text \<open>
  \<^verbatim>\<open>UPDATE ratings SET rating = v WHERE ...\<close>, the only update the client issues.  The
  trigger \<^verbatim>\<open>update_ratings_updated_at\<close> stamps every updated row; the new row is checked
  against \<^verbatim>\<open>ratings_rating_check\<close>.  The statement touches the rows selected by \<open>sel\<close>.
\<close>

definition update_updated_at_column :: "timestamptz \<Rightarrow> rating \<Rightarrow> rating" where
  "update_updated_at_column now NEW = NEW\<lparr>r_updated_at := now\<rparr>"

definition ratings_update_rating :: "db \<Rightarrow> (rating \<Rightarrow> bool) \<Rightarrow> int \<Rightarrow> timestamptz \<Rightarrow> error + db" where
  "ratings_update_rating d sel v now =
    (if list_ex sel (ratings d) \<and> \<not> (v \<ge> 1 \<and> v \<le> 5)
       then Inl (check_violation ratings_rating_check)
     else Inr (d\<lparr>ratings :=
            map (\<lambda>r. if sel r then update_updated_at_column now (r\<lparr>r_rating := v\<rparr>) else r)
              (ratings d)\<rparr>))"

text \<open>
  \<^verbatim>\<open>UPDATE profiles SET ... WHERE id = i\<close> and \<^verbatim>\<open>UPDATE stores SET ... WHERE id = i\<close>: the
  update of the row with a given primary key, with any \<^verbatim>\<open>SET\<close> clause, a function of the old
  row.  The triggers \<^verbatim>\<open>update_profiles_updated_at\<close> and \<^verbatim>\<open>update_stores_updated_at\<close> stamp the
  new row before it is checked.  The new row has to pass the \<^verbatim>\<open>CHECK\<close> constraints, then the
  unique indexes against the other rows; a primary key that rows of another table refer to
  cannot change (the references are declared without \<^verbatim>\<open>ON UPDATE\<close>); and the foreign key of
  the row is checked when that column changed.  With no row of that key the statement updates
  nothing.
\<close>

definition update_profiles_updated_at :: "timestamptz \<Rightarrow> profile \<Rightarrow> profile" where
  "update_profiles_updated_at now NEW = NEW\<lparr>p_updated_at := now\<rparr>"

definition update_stores_updated_at :: "timestamptz \<Rightarrow> store \<Rightarrow> store" where
  "update_stores_updated_at now NEW = NEW\<lparr>s_updated_at := now\<rparr>"

definition profiles_update_by_id :: "db \<Rightarrow> uuid \<Rightarrow> (profile \<Rightarrow> profile) \<Rightarrow> timestamptz \<Rightarrow> error + db" where
  "profiles_update_by_id d i set_clause now =
    (case filter (\<lambda>p. p_id p = i) (profiles d) of
       [] \<Rightarrow> Inr d
     | OLD # rest \<Rightarrow>
        (let NEW = update_profiles_updated_at now (set_clause OLD);
             others = filter (\<lambda>p. p_id p \<noteq> i) (profiles d)
         in if \<not> (case p_address NEW of None \<Rightarrow> True | Some a \<Rightarrow> length a \<le> 400)
              then Inl (check_violation profiles_address_check)
            else if \<not> (length (p_name NEW) \<ge> 20 \<and> length (p_name NEW) \<le> 60)
              then Inl (check_violation profiles_name_check)
            else if p_id NEW \<in> set (map p_id others)
              then Inl (unique_violation profiles_pkey)
            else if p_user_id NEW \<in> set (map p_user_id others)
              then Inl (unique_violation profiles_user_id_key)
            else if p_id NEW \<noteq> i \<and> i \<in> set (map s_owner_id (stores d))
              then Inl (foreign_key_violation stores_owner_id_fkey)
            else if p_id NEW \<noteq> i \<and> i \<in> set (map r_user_id (ratings d))
              then Inl (foreign_key_violation ratings_user_id_fkey)
            else if p_user_id NEW \<noteq> p_user_id OLD \<and> p_user_id NEW \<notin> set (map au_id (auth_users d))
              then Inl (foreign_key_violation profiles_user_id_fkey)
            else Inr (d\<lparr>profiles := map (\<lambda>p. if p_id p = i then NEW else p) (profiles d)\<rparr>)))"

definition stores_update_by_id :: "db \<Rightarrow> uuid \<Rightarrow> (store \<Rightarrow> store) \<Rightarrow> timestamptz \<Rightarrow> error + db" where
  "stores_update_by_id d i set_clause now =
    (case filter (\<lambda>s. s_id s = i) (stores d) of
       [] \<Rightarrow> Inr d
     | OLD # rest \<Rightarrow>
        (let NEW = update_stores_updated_at now (set_clause OLD);
             others = filter (\<lambda>s. s_id s \<noteq> i) (stores d)
         in if \<not> (length (s_address NEW) \<le> 400)
              then Inl (check_violation stores_address_check)
            else if \<not> (length (s_name NEW) \<ge> 20 \<and> length (s_name NEW) \<le> 60)
              then Inl (check_violation stores_name_check)
            else if s_id NEW \<in> set (map s_id others)
              then Inl (unique_violation stores_pkey)
            else if s_id NEW \<noteq> i \<and> i \<in> set (map r_store_id (ratings d))
              then Inl (foreign_key_violation ratings_store_id_fkey)
            else if s_owner_id NEW \<noteq> s_owner_id OLD \<and> s_owner_id NEW \<notin> set (map p_id (profiles d))
              then Inl (foreign_key_violation stores_owner_id_fkey)
            else Inr (d\<lparr>stores := map (\<lambda>s. if s_id s = i then NEW else s) (stores d)\<rparr>)))"

text \<open>
  Deletes.  \<^verbatim>\<open>ON DELETE CASCADE\<close> is declared on \<^verbatim>\<open>profiles.user_id\<close>, \<^verbatim>\<open>stores.owner_id\<close>,
  \<^verbatim>\<open>ratings.user_id\<close> and \<^verbatim>\<open>ratings.store_id\<close>: deleting a row deletes the rows that refer to
  it, and so on along the references.  \<open>sel\<close> is the \<^verbatim>\<open>WHERE\<close> clause.
\<close>

definition ratings_delete :: "db \<Rightarrow> (rating \<Rightarrow> bool) \<Rightarrow> db" where
  "ratings_delete d sel = d\<lparr>ratings := filter (\<lambda>r. \<not> sel r) (ratings d)\<rparr>"

definition stores_delete :: "db \<Rightarrow> (store \<Rightarrow> bool) \<Rightarrow> db" where
  "stores_delete d sel =
    ratings_delete
      (d\<lparr>stores := filter (\<lambda>s. \<not> sel s) (stores d)\<rparr>)
      (\<lambda>r. r_store_id r \<in> set (map s_id (filter sel (stores d))))"

definition profiles_delete :: "db \<Rightarrow> (profile \<Rightarrow> bool) \<Rightarrow> db" where
  "profiles_delete d sel =
    ratings_delete
      (stores_delete
         (d\<lparr>profiles := filter (\<lambda>p. \<not> sel p) (profiles d)\<rparr>)
         (\<lambda>s. s_owner_id s \<in> set (map p_id (filter sel (profiles d)))))
      (\<lambda>r. r_user_id r \<in> set (map p_id (filter sel (profiles d))))"

definition auth_users_delete :: "db \<Rightarrow> (auth_user \<Rightarrow> bool) \<Rightarrow> db" where
  "auth_users_delete d sel =
    profiles_delete
      (d\<lparr>auth_users := filter (\<lambda>u. \<not> sel u) (auth_users d)\<rparr>)
      (\<lambda>p. p_user_id p \<in> set (map au_id (filter sel (auth_users d))))"

section \<open>The provisioning trigger\<close>

text \<open>
  \<^verbatim>\<open>handle_new_user\<close> as the second migration redefines it.  \<^verbatim>\<open>->>\<close> yields \<^verbatim>\<open>NULL\<close> when
  the object is \<^verbatim>\<open>NULL\<close>, when the key is missing and when the value is the JSON null.  The cast
  \<^verbatim>\<open>::public.user_role\<close> maps \<^verbatim>\<open>NULL\<close> to \<^verbatim>\<open>NULL\<close>, a label of the enum to its value, and
  raises on any other text.  The function is \<^verbatim>\<open>SECURITY DEFINER\<close>: its insert runs as the
  owner of the table, so no row-security policy applies to it, only the constraints.
\<close>

definition jsonb_get_text :: "(string \<times> jsonv) list option \<Rightarrow> string \<Rightarrow> string option" where
  "jsonb_get_text j k =
    (case j of
       None \<Rightarrow> None
     | Some obj \<Rightarrow> (case map_of obj k of
                     None \<Rightarrow> None
                   | Some JNull \<Rightarrow> None
                   | Some (JText txt) \<Rightarrow> Some txt))"

definition user_role_in :: "string \<Rightarrow> error + user_role" where
  "user_role_in txt =
    (if txt = ''admin'' then Inr admin
     else if txt = ''normal_user'' then Inr normal_user
     else if txt = ''store_owner'' then Inr store_owner
     else Inl (invalid_text_representation txt))"

definition cast_user_role :: "string option \<Rightarrow> error + user_role option" where
  "cast_user_role x =
    (case x of
       None \<Rightarrow> Inr None
     | Some txt \<Rightarrow> (case user_role_in txt of Inl e \<Rightarrow> Inl e | Inr ro \<Rightarrow> Inr (Some ro)))"

definition COALESCE :: "'a option \<Rightarrow> 'a \<Rightarrow> 'a" where
  "COALESCE x dflt = (case x of None \<Rightarrow> dflt | Some v \<Rightarrow> v)"

definition handle_new_user :: "db \<Rightarrow> auth_user \<Rightarrow> uuid \<Rightarrow> timestamptz \<Rightarrow> error + db" where
  "handle_new_user d NEW new_id now =
    (case cast_user_role (jsonb_get_text (au_raw_user_meta_data NEW) ''role'') of
       Inl e \<Rightarrow> Inl e
     | Inr ro \<Rightarrow>
         profiles_insert d
           \<lparr>p_id = new_id,
            p_user_id = au_id NEW,
            p_name = COALESCE (jsonb_get_text (au_raw_user_meta_data NEW) ''name'')
                       ''Default Name (Please Update)'',
            p_email = au_email NEW,
            p_address = None,
            p_role = COALESCE ro normal_user,
            p_created_at = now,
            p_updated_at = now\<rparr>)"

text \<open>
  Registration inserts the account into \<^verbatim>\<open>auth.users\<close> and fires the trigger
  \<^verbatim>\<open>on_auth_user_created\<close> in the same transaction: an error of the trigger aborts the
  insert of the account too.  The table \<^verbatim>\<open>auth.users\<close> is not declared in the repository;
  the account carries the fields the trigger reads and its identifier is its primary key, as
  the reference \<^verbatim>\<open>REFERENCES auth.users(id)\<close> requires.
\<close>

definition auth_users_insert :: "db \<Rightarrow> auth_user \<Rightarrow> uuid \<Rightarrow> timestamptz \<Rightarrow> error + db" where
  "auth_users_insert d u new_id now =
    (if au_id u \<in> set (map au_id (auth_users d))
       then Inl (unique_violation users_pkey)
     else handle_new_user (d\<lparr>auth_users := auth_users d @ [u]\<rparr>) u new_id now)"


section \<open>Histories of statements\<close>

text \<open>
  The statements above, and the database after a sequence of them run from the empty
  database.  A statement that fails changes nothing.
\<close>

datatype statement =
    InsertAccount auth_user uuid timestamptz
  | InsertProfile profile
  | InsertStore store
  | InsertRating rating
  | UpdateProfile uuid "profile \<Rightarrow> profile" timestamptz
  | UpdateStore uuid "store \<Rightarrow> store" timestamptz
  | UpdateRating uuid int timestamptz
  | DeleteAccount uuid
  | DeleteProfile uuid
  | DeleteStore uuid
  | DeleteRating uuid

fun exec :: "db \<Rightarrow> statement \<Rightarrow> error + db" where
  "exec d (InsertAccount u new_id now) = auth_users_insert d u new_id now"
| "exec d (InsertProfile p) = profiles_insert d p"
| "exec d (InsertStore s) = stores_insert d s"
| "exec d (InsertRating r) = ratings_insert d r"
| "exec d (UpdateProfile i set_clause now) = profiles_update_by_id d i set_clause now"
| "exec d (UpdateStore i set_clause now) = stores_update_by_id d i set_clause now"
| "exec d (UpdateRating i v now) = ratings_update_rating d (\<lambda>r. r_id r = i) v now"
| "exec d (DeleteAccount i) = Inr (auth_users_delete d (\<lambda>u. au_id u = i))"
| "exec d (DeleteProfile i) = Inr (profiles_delete d (\<lambda>p. p_id p = i))"
| "exec d (DeleteStore i) = Inr (stores_delete d (\<lambda>s. s_id s = i))"
| "exec d (DeleteRating i) = Inr (ratings_delete d (\<lambda>r. r_id r = i))"

definition step :: "db \<Rightarrow> statement \<Rightarrow> db" where
  "step d stmt = (case exec d stmt of Inl e \<Rightarrow> d | Inr d' \<Rightarrow> d')"

definition run :: "db \<Rightarrow> statement list \<Rightarrow> db" where
  "run d stmts = foldl step d stmts"

text \<open>The constraints as predicates on a database.\<close>

definition keys_ok :: "db \<Rightarrow> bool" where
  "keys_ok d \<longleftrightarrow>
     distinct (map au_id (auth_users d)) \<and>
     distinct (map p_id (profiles d)) \<and>
     distinct (map p_user_id (profiles d)) \<and>
     distinct (map s_id (stores d)) \<and>
     distinct (map r_id (ratings d)) \<and>
     distinct (map (\<lambda>r. (r_user_id r, r_store_id r)) (ratings d))"

definition refs_ok :: "db \<Rightarrow> bool" where
  "refs_ok d \<longleftrightarrow>
     set (map p_user_id (profiles d)) \<subseteq> set (map au_id (auth_users d)) \<and>
     set (map s_owner_id (stores d)) \<subseteq> set (map p_id (profiles d)) \<and>
     set (map r_user_id (ratings d)) \<subseteq> set (map p_id (profiles d)) \<and>
     set (map r_store_id (ratings d)) \<subseteq> set (map s_id (stores d))"

definition profile_checks :: "profile \<Rightarrow> bool" where
  "profile_checks p \<longleftrightarrow>
     length (p_name p) \<ge> 20 \<and> length (p_name p) \<le> 60 \<and>
     (case p_address p of None \<Rightarrow> True | Some a \<Rightarrow> length a \<le> 400)"

definition store_checks :: "store \<Rightarrow> bool" where
  "store_checks s \<longleftrightarrow>
     length (s_name s) \<ge> 20 \<and> length (s_name s) \<le> 60 \<and> length (s_address s) \<le> 400"

definition rating_checks :: "rating \<Rightarrow> bool" where
  "rating_checks r \<longleftrightarrow> r_rating r \<ge> 1 \<and> r_rating r \<le> 5"

definition checks_ok :: "db \<Rightarrow> bool" where
  "checks_ok d \<longleftrightarrow>
     list_all profile_checks (profiles d) \<and>
     list_all store_checks (stores d) \<and>
     list_all rating_checks (ratings d)"

section \<open>The view \<^verbatim>\<open>store_ratings\<close>\<close>

text \<open>
  \<^verbatim>\<open>SELECT s.*, COALESCE(AVG(r.rating), 0), COUNT(r.id)
  FROM stores s LEFT JOIN ratings r ON s.id = r.store_id GROUP BY s.id, ..., s.updated_at\<close>.
  The join keeps a store without ratings as one row whose rating side is \<^verbatim>\<open>NULL\<close>; the
  groups are keyed by all the columns of the store; \<^verbatim>\<open>AVG\<close> and \<^verbatim>\<open>COUNT(col)\<close> skip
  \<^verbatim>\<open>NULL\<close>s and \<^verbatim>\<open>AVG\<close> of no value is \<^verbatim>\<open>NULL\<close>.

  \<^verbatim>\<open>AVG\<close> of an \<^verbatim>\<open>INTEGER\<close> column is a \<^verbatim>\<open>numeric\<close>: the sum divided by the count, as a
  decimal with a fixed number of digits after the point, the last one rounded (a half away
  from zero).  That number of digits, the scale of the quotient, is chosen by the database from
  the two operands, so that the quotient has at least 16 significant digits; the choice is the
  parameter \<open>div_scale\<close>.  The division is only made for a count that is not 0.

  The view has no \<^verbatim>\<open>ORDER BY\<close>: the database returns its rows in an order of its choice.  The
  rows are listed here in the order of the table, and nothing below is stated of their order.
\<close>

definition join_block :: "rating list \<Rightarrow> store \<Rightarrow> (store \<times> rating option) list" where
  "join_block rs s =
    (case filter (\<lambda>r. s_id s = r_store_id r) rs of
       [] \<Rightarrow> [(s, None)]
     | m # ms \<Rightarrow> map (\<lambda>r. (s, Some r)) (m # ms))"

definition left_join :: "store list \<Rightarrow> rating list \<Rightarrow> (store \<times> rating option) list" where
  "left_join ss rs = concat (map (join_block rs) ss)"

definition group_by :: "('k \<times> 'v) list \<Rightarrow> ('k \<times> 'v list) list" where
  "group_by rows =
    map (\<lambda>k. (k, map snd (filter (\<lambda>row. fst row = k) rows))) (remdups (map fst rows))"

definition non_null :: "'a option list \<Rightarrow> 'a list" where
  "non_null xs = concat (map (\<lambda>x. case x of None \<Rightarrow> [] | Some v \<Rightarrow> [v]) xs)"

definition numeric_div :: "nat \<Rightarrow> int \<Rightarrow> nat \<Rightarrow> rat" where
  "numeric_div rscale s c =
    of_int (sgn s * ((2 * \<bar>s\<bar> * 10 ^ rscale + int c) div (2 * int c))) / 10 ^ rscale"

definition AVG :: "(int \<Rightarrow> nat \<Rightarrow> nat) \<Rightarrow> int option list \<Rightarrow> rat option" where
  "AVG div_scale xs =
    (case non_null xs of
       [] \<Rightarrow> None
     | v # vs \<Rightarrow>
         Some (numeric_div (div_scale (sum_list (v # vs)) (length (v # vs)))
                 (sum_list (v # vs)) (length (v # vs))))"

definition COUNT :: "'a option list \<Rightarrow> nat" where
  "COUNT xs = length (non_null xs)"

record store_ratings_row =
  sr_store :: store
  average_rating :: rat
  total_ratings :: nat

definition select_list ::
    "(int \<Rightarrow> nat \<Rightarrow> nat) \<Rightarrow> store \<times> rating option list \<Rightarrow> store_ratings_row" where
  "select_list div_scale grp =
    \<lparr>sr_store = fst grp,
     average_rating = COALESCE (AVG div_scale (map (map_option r_rating) (snd grp))) 0,
     total_ratings = COUNT (map (map_option r_id) (snd grp))\<rparr>"

definition store_ratings :: "(int \<Rightarrow> nat \<Rightarrow> nat) \<Rightarrow> db \<Rightarrow> store_ratings_row list" where
  "store_ratings div_scale d =
    map (select_list div_scale) (group_by (left_join (stores d) (ratings d)))"

text \<open>
  The specification's reading of the two computed columns: the arithmetic mean of the scores
  of the ratings of the store, 0 when there is none, and their number.  \<open>rounded_mean\<close> is
  the mean as a decimal of the scale that the database chooses.
\<close>

definition ratings_of :: "db \<Rightarrow> store \<Rightarrow> rating list" where
  "ratings_of d s = filter (\<lambda>r. r_store_id r = s_id s) (ratings d)"

definition spec_mean :: "int list \<Rightarrow> rat" where
  "spec_mean xs = (if xs = [] then 0 else of_int (sum_list xs) / of_nat (length xs))"

definition round_half_away :: "nat \<Rightarrow> rat \<Rightarrow> rat" where
  "round_half_away rscale q = sgn q * of_int \<lfloor>\<bar>q\<bar> * 10 ^ rscale + 1 / 2\<rfloor> / 10 ^ rscale"

definition rounded_mean :: "(int \<Rightarrow> nat \<Rightarrow> nat) \<Rightarrow> int list \<Rightarrow> rat" where
  "rounded_mean div_scale xs =
    round_half_away (div_scale (sum_list xs) (length xs)) (spec_mean xs)"

definition spec_summary :: "(int \<Rightarrow> nat \<Rightarrow> nat) \<Rightarrow> db \<Rightarrow> store \<Rightarrow> store_ratings_row" where
  "spec_summary div_scale d s =
    \<lparr>sr_store = s,
     average_rating = rounded_mean div_scale (map r_rating (ratings_of d s)),
     total_ratings = length (ratings_of d s)\<rparr>"

section \<open>Row-level security\<close>

text \<open>
  Row security is enabled on the three tables.  The thirteen policies of the migration, each
  with its table, its command and its expression (\<^verbatim>\<open>USING\<close>, or \<^verbatim>\<open>WITH CHECK\<close> for an insert).
  The migration uses five expressions:
  \<^item> \<open>q_true\<close>: \<^verbatim>\<open>true\<close>;
  \<^item> \<open>q_uid_is_user_id\<close>: \<^verbatim>\<open>auth.uid() = user_id\<close>;
  \<^item> \<open>q_exists_admin\<close>:
    \<^verbatim>\<open>EXISTS (SELECT 1 FROM public.profiles WHERE user_id = auth.uid() AND role = 'admin')\<close>;
  \<^item> \<open>q_exists_owner\<close>:
    \<^verbatim>\<open>EXISTS (SELECT 1 FROM public.profiles WHERE user_id = auth.uid() AND id = stores.owner_id)\<close>;
  \<^item> \<open>q_uid_is_rater\<close>:
    \<^verbatim>\<open>auth.uid() = (SELECT user_id FROM public.profiles WHERE id = ratings.user_id)\<close>.
\<close>

datatype command = SELECT | INSERT | UPDATE | DELETE

datatype qual = q_true | q_uid_is_user_id | q_exists_admin | q_exists_owner | q_uid_is_rater

record policy =
  polname :: string
  polrelid :: relation
  polcmd :: command
  polqual :: qual

definition pg_policy :: "policy list" where
  "pg_policy =
    [\<lparr>polname = ''Users can view their own profile'', polrelid = rel_profiles,
       polcmd = SELECT, polqual = q_uid_is_user_id\<rparr>,
     \<lparr>polname = ''Users can update their own profile'', polrelid = rel_profiles,
       polcmd = UPDATE, polqual = q_uid_is_user_id\<rparr>,
     \<lparr>polname = ''Admins can view all profiles'', polrelid = rel_profiles,
       polcmd = SELECT, polqual = q_exists_admin\<rparr>,
     \<lparr>polname = ''Admins can insert profiles'', polrelid = rel_profiles,
       polcmd = INSERT, polqual = q_exists_admin\<rparr>,
     \<lparr>polname = ''Admins can update all profiles'', polrelid = rel_profiles,
       polcmd = UPDATE, polqual = q_exists_admin\<rparr>,
     \<lparr>polname = ''Everyone can view stores'', polrelid = rel_stores,
       polcmd = SELECT, polqual = q_true\<rparr>,
     \<lparr>polname = ''Store owners can update their own stores'', polrelid = rel_stores,
       polcmd = UPDATE, polqual = q_exists_owner\<rparr>,
     \<lparr>polname = ''Admins can insert stores'', polrelid = rel_stores,
       polcmd = INSERT, polqual = q_exists_admin\<rparr>,
     \<lparr>polname = ''Admins can update all stores'', polrelid = rel_stores,
       polcmd = UPDATE, polqual = q_exists_admin\<rparr>,
     \<lparr>polname = ''Users can view all ratings'', polrelid = rel_ratings,
       polcmd = SELECT, polqual = q_true\<rparr>,
     \<lparr>polname = ''Users can insert their own ratings'', polrelid = rel_ratings,
       polcmd = INSERT, polqual = q_uid_is_rater\<rparr>,
     \<lparr>polname = ''Users can update their own ratings'', polrelid = rel_ratings,
       polcmd = UPDATE, polqual = q_uid_is_rater\<rparr>,
     \<lparr>polname = ''Users can delete their own ratings'', polrelid = rel_ratings,
       polcmd = DELETE, polqual = q_uid_is_rater\<rparr>]"

definition policies_for :: "relation \<Rightarrow> command \<Rightarrow> policy list" where
  "policies_for rel cmd = filter (\<lambda>pol. polrelid pol = rel \<and> polcmd pol = cmd) pg_policy"

text \<open>The tables read by the sub-selects of an expression.\<close>

fun sublinks :: "qual \<Rightarrow> relation list" where
  "sublinks q_true = []"
| "sublinks q_uid_is_user_id = []"
| "sublinks q_exists_admin = [rel_profiles]"
| "sublinks q_exists_owner = [rel_profiles]"
| "sublinks q_uid_is_rater = [rel_profiles]"

text \<open>
  The expressions the engine attaches to a statement of kind \<open>cmd\<close> on \<open>rel\<close>: those of the
  policies for \<open>cmd\<close> and, for an update or a delete whose \<^verbatim>\<open>WHERE\<close> clause reads the table,
  those of the policies for \<^verbatim>\<open>SELECT\<close> as well.
\<close>

definition security_quals :: "relation \<Rightarrow> command \<Rightarrow> qual list" where
  "security_quals rel cmd =
    map polqual (policies_for rel cmd) @
    (if cmd = UPDATE \<or> cmd = DELETE then map polqual (policies_for rel SELECT) else [])"

text \<open>
  Policy expansion, as PostgreSQL's rewriter does it before a statement runs
  (\<^verbatim>\<open>fireRIRrules\<close>): the expressions attached to a table are added to the statement, and
  every sub-select inside them is a \<^verbatim>\<open>SELECT\<close> on its table, to which the policies of
  that table are attached in turn.  \<open>activeRIRs\<close> lists the tables whose policies are being
  expanded; meeting one of them again while expanding sub-selects ends the statement with
  \<^verbatim>\<open>infinite recursion detected in policy for relation\<close>.
\<close>

fun first_error :: "(error + unit) list \<Rightarrow> error + unit" where
  "first_error [] = Inr ()"
| "first_error (Inl e # rest) = Inl e"
| "first_error (Inr u # rest) = first_error rest"

function fireRIRrules :: "relation list \<Rightarrow> relation \<Rightarrow> command \<Rightarrow> error + unit" where
  "fireRIRrules activeRIRs rel cmd =
    (if concat (map sublinks (security_quals rel cmd)) = [] then Inr ()
     else if rel \<in> set activeRIRs then Inl (infinite_recursion rel)
     else first_error
            (map (\<lambda>sub. fireRIRrules (activeRIRs @ [rel]) sub SELECT)
               (concat (map sublinks (security_quals rel cmd)))))"
  by pat_completeness auto
termination
proof (relation "measure (\<lambda>(activeRIRs, rel, cmd). card (- set activeRIRs))")
  show "wf (measure (\<lambda>(activeRIRs, rel, cmd). card (- set activeRIRs)))"
    by simp
next
  fix activeRIRs :: "relation list" and rel :: relation and cmd :: command and sub :: relation
  assume "rel \<notin> set activeRIRs"
  have "(UNIV :: relation set) = {rel_profiles, rel_stores, rel_ratings}"
    by (auto intro: relation.exhaust)
  then have fin: "finite (UNIV :: relation set)"
    by (metis finite.emptyI finite.insertI)
  have "- set (activeRIRs @ [rel]) \<subset> - set activeRIRs"
    using \<open>rel \<notin> set activeRIRs\<close> by auto
  then have "card (- set (activeRIRs @ [rel])) < card (- set activeRIRs)"
    by (intro psubset_card_mono finite_subset[OF subset_UNIV fin])
  then show "((activeRIRs @ [rel], sub, SELECT), (activeRIRs, rel, cmd))
      \<in> measure (\<lambda>(activeRIRs, rel, cmd). card (- set activeRIRs))"
    by simp
qed

text \<open>
  Who issues a statement: a role exempt from row security (the owner of the tables, under
  which the \<^verbatim>\<open>SECURITY DEFINER\<close> trigger runs, or a role with \<^verbatim>\<open>BYPASSRLS\<close> such as the
  service role), a signed-in account, for which \<^verbatim>\<open>auth.uid()\<close> is its identifier, or an
  anonymous request, for which \<^verbatim>\<open>auth.uid()\<close> is \<^verbatim>\<open>NULL\<close>.  The client object the components
  import is not part of the repository, so the caller is a parameter of every request.
\<close>

datatype caller = bypassrls | authenticated uuid | anon

fun auth_uid :: "caller \<Rightarrow> uuid option" where
  "auth_uid (authenticated u) = Some u"
| "auth_uid bypassrls = None"
| "auth_uid anon = None"

definition rewrite :: "caller \<Rightarrow> relation \<Rightarrow> command \<Rightarrow> error + unit" where
  "rewrite c rel cmd = (case c of bypassrls \<Rightarrow> Inr () | _ \<Rightarrow> fireRIRrules [] rel cmd)"

text \<open>
  The value of an expression on a row.  A comparison with \<^verbatim>\<open>NULL\<close> is not true.  The
  sub-selects are evaluated on the table itself: this is the direct lookup of the caller's
  own row; what the engine does with them before a statement runs is \<open>fireRIRrules\<close>.  The
  scalar sub-select of \<open>q_uid_is_rater\<close> selects by primary key, so it has one row or none.
\<close>

datatype row = profile_row profile | store_row store | rating_row rating

fun qual_holds :: "db \<Rightarrow> uuid option \<Rightarrow> row \<Rightarrow> qual \<Rightarrow> bool" where
  "qual_holds d uid rw q_true = True"
| "qual_holds d uid (profile_row p) q_uid_is_user_id = (uid = Some (p_user_id p))"
| "qual_holds d uid rw q_exists_admin =
     list_ex (\<lambda>p. Some (p_user_id p) = uid \<and> p_role p = admin) (profiles d)"
| "qual_holds d uid (store_row s) q_exists_owner =
     list_ex (\<lambda>p. Some (p_user_id p) = uid \<and> p_id p = s_owner_id s) (profiles d)"
| "qual_holds d uid (rating_row r) q_uid_is_rater =
     (case filter (\<lambda>p. p_id p = r_user_id r) (profiles d) of
        [p] \<Rightarrow> uid = Some (p_user_id p)
      | _ \<Rightarrow> False)"
| "qual_holds d uid rw q = False"

text \<open>
  A row passes when one of the policies for the command holds on it; with no policy for the
  command nothing passes.
\<close>

definition row_security :: "caller \<Rightarrow> db \<Rightarrow> relation \<Rightarrow> command \<Rightarrow> row \<Rightarrow> bool" where
  "row_security c d rel cmd rw =
    (case c of
       bypassrls \<Rightarrow> True
     | _ \<Rightarrow> list_ex (qual_holds d (auth_uid c) rw) (map polqual (policies_for rel cmd)))"

section \<open>Requests of the client\<close>

text \<open>
  The statements the components send, run as the caller: policy expansion, then the row
  checks of the policies, then the table constraints.  An inserted row that fails its
  \<^verbatim>\<open>WITH CHECK\<close> is an error; rows that fail \<^verbatim>\<open>USING\<close> are not seen.  The update changes
  only \<^verbatim>\<open>rating\<close>, on which no policy depends, so the rows it writes pass the policies that
  the rows it read passed.  A select without an order returns its rows in an order of the
  database's choice, here that of the table; the components look in such a result only for the
  one row of a key (\<^verbatim>\<open>find\<close> on the store of a rater's ratings, \<^verbatim>\<open>.single()\<close>).
\<close>

definition api_insert_rating :: "caller \<Rightarrow> db \<Rightarrow> rating \<Rightarrow> error + db" where
  "api_insert_rating c d r =
    (case rewrite c rel_ratings INSERT of
       Inl e \<Rightarrow> Inl e
     | Inr u \<Rightarrow>
         if \<not> row_security c d rel_ratings INSERT (rating_row r)
           then Inl (insufficient_privilege rel_ratings)
         else ratings_insert d r)"


definition api_select_ratings :: "caller \<Rightarrow> db \<Rightarrow> (rating \<Rightarrow> bool) \<Rightarrow> error + rating list" where
  "api_select_ratings c d sel =
    (case rewrite c rel_ratings SELECT of
       Inl e \<Rightarrow> Inl e
     | Inr u \<Rightarrow>
         Inr (filter (\<lambda>r. sel r \<and> row_security c d rel_ratings SELECT (rating_row r)) (ratings d)))"

definition api_select_stores :: "caller \<Rightarrow> db \<Rightarrow> (store \<Rightarrow> bool) \<Rightarrow> error + store list" where
  "api_select_stores c d sel =
    (case rewrite c rel_stores SELECT of
       Inl e \<Rightarrow> Inl e
     | Inr u \<Rightarrow>
         Inr (filter (\<lambda>s. sel s \<and> row_security c d rel_stores SELECT (store_row s)) (stores d)))"

text \<open>
  The select of \<^verbatim>\<open>fetchRatings\<close>:
  \<^verbatim>\<open>ratings?select=id,rating,created_at,profiles:user_id(name,email)&store_id=eq.S&order=created_at.desc\<close>.
  The embedded \<^verbatim>\<open>profiles\<close> is the row of \<^verbatim>\<open>profiles\<close> that \<^verbatim>\<open>user_id\<close> refers to, read as the
  caller, and is null when the caller does not see that row.  The request orders the rows by
  \<^verbatim>\<open>created_at\<close> only: rows with the same \<^verbatim>\<open>created_at\<close> come in an order that the database
  chooses, here by the rank \<open>tiebreak\<close> that it gives to the rows, a parameter of the request.
\<close>

record rating_with_user =
  rwu_id :: uuid
  rwu_rating :: int
  rwu_created_at :: timestamptz
  rwu_profiles :: "(string \<times> string) option"

definition embed_profile :: "caller \<Rightarrow> db \<Rightarrow> rating \<Rightarrow> (string \<times> string) option" where
  "embed_profile c d r =
    (case filter (\<lambda>p. p_id p = r_user_id r \<and> row_security c d rel_profiles SELECT (profile_row p))
            (profiles d) of
       [p] \<Rightarrow> Some (p_name p, p_email p)
     | _ \<Rightarrow> None)"

definition api_select_ratings_with_profiles ::
    "caller \<Rightarrow> db \<Rightarrow> (rating \<Rightarrow> nat) \<Rightarrow> uuid \<Rightarrow> error + rating_with_user list" where
  "api_select_ratings_with_profiles c d tiebreak sid =
    (case rewrite c rel_ratings SELECT of
       Inl e \<Rightarrow> Inl e
     | Inr u \<Rightarrow>
        (case rewrite c rel_profiles SELECT of
           Inl e \<Rightarrow> Inl e
         | Inr u \<Rightarrow>
             Inr (map (\<lambda>r. \<lparr>rwu_id = r_id r, rwu_rating = r_rating r,
                            rwu_created_at = r_created_at r,
                            rwu_profiles = embed_profile c d r\<rparr>)
                    (rev (sort_key r_created_at
                       (sort_key tiebreak
                          (filter (\<lambda>r. r_store_id r = sid
                                     \<and> row_security c d rel_ratings SELECT (rating_row r))
                             (ratings d))))))))"

section \<open>The components\<close>

text \<open>
  \<^verbatim>\<open>UserDashboard\<close>: the part of its state that \<^verbatim>\<open>handleSubmitRating\<close> reads and writes.  A
  handler returns the database, the new state and the notifications it raised.
  \<^verbatim>\<open>fetchData\<close> also reloads the list of stores, which no handler below reads; the view is
  read as its owner and without a policy, so that reload raises nothing.  The reload that a
  handler starts is complete when the next handler runs.
\<close>

datatype toast = toast_error string | toast_success string







text \<open>
  \<^verbatim>\<open>StoreOwnerDashboard.fetchRatings\<close>.  \<^verbatim>\<open>.single()\<close> gives the row when the select has
  exactly one, and no data otherwise.
\<close>

record store_owner_dashboard =
  so_profile :: "profile option"
  so_ratings :: "rating_with_user list"

definition single :: "error + 'a list \<Rightarrow> 'a option" where
  "single res = (case res of Inr [x] \<Rightarrow> Some x | _ \<Rightarrow> None)"

definition fetchRatings ::
    "caller \<Rightarrow> db \<Rightarrow> (rating \<Rightarrow> nat) \<Rightarrow> store_owner_dashboard
       \<Rightarrow> store_owner_dashboard \<times> toast list" where
  "fetchRatings c d tiebreak st =
    (case so_profile st of
       None \<Rightarrow> (st, [])
     | Some p \<Rightarrow>
        (case single (api_select_stores c d (\<lambda>s. s_owner_id s = p_id p)) of
           None \<Rightarrow> (st, [])
         | Some storeData \<Rightarrow>
            (case api_select_ratings_with_profiles c d tiebreak (s_id storeData) of
               Inl e \<Rightarrow> (st, [toast_error ''Failed to fetch ratings''])
             | Inr rows \<Rightarrow> (st\<lparr>so_ratings := rows\<rparr>, []))))"

text \<open>
  \<^verbatim>\<open>AdminDashboard.storeSchema\<close>, the validation of the store form in the browser.  The test
  \<^verbatim>\<open>z.string().email()\<close> belongs to a library and is a parameter.
\<close>

record store_form =
  sf_name :: string
  sf_email :: string
  sf_address :: string
  sf_ownerEmail :: string

definition storeSchema :: "(string \<Rightarrow> bool) \<Rightarrow> store_form \<Rightarrow> bool" where
  "storeSchema is_email f \<longleftrightarrow>
     length (sf_name f) \<ge> 20 \<and> length (sf_name f) \<le> 60 \<and>
     is_email (sf_email f) \<and>
     length (sf_address f) \<ge> 1 \<and> length (sf_address f) \<le> 400 \<and>
     is_email (sf_ownerEmail f)"

section \<open>A sample database\<close>

definition alice :: profile where
  "alice = \<lparr>p_id = 10, p_user_id = 1, p_name = ''Alice Example Customer'', p_email = ''alice@example.com'',
     p_address = None, p_role = normal_user, p_created_at = 1, p_updated_at = 1\<rparr>"

definition bob :: profile where
  "bob = \<lparr>p_id = 11, p_user_id = 2, p_name = ''Robert Example Customer'', p_email = ''bob@example.com'',
     p_address = None, p_role = normal_user, p_created_at = 2, p_updated_at = 2\<rparr>"

definition carol :: profile where
  "carol = \<lparr>p_id = 12, p_user_id = 3, p_name = ''Carol Example Customer'', p_email = ''carol@example.com'',
     p_address = None, p_role = normal_user, p_created_at = 3, p_updated_at = 3\<rparr>"

definition olivia :: profile where
  "olivia = \<lparr>p_id = 20, p_user_id = 4, p_name = ''Olivia Example Shopkeeper'', p_email = ''olivia@example.com'',
     p_address = None, p_role = store_owner, p_created_at = 4, p_updated_at = 4\<rparr>"

definition oscar :: profile where
  "oscar = \<lparr>p_id = 21, p_user_id = 5, p_name = ''Oscar Example Shopkeeper'', p_email = ''oscar@example.com'',
     p_address = None, p_role = store_owner, p_created_at = 5, p_updated_at = 5\<rparr>"

fun role_label :: "user_role \<Rightarrow> string" where
  "role_label admin = ''admin''"
| "role_label normal_user = ''normal_user''"
| "role_label store_owner = ''store_owner''"

definition account_of :: "profile \<Rightarrow> auth_user" where
  "account_of p =
    \<lparr>au_id = p_user_id p, au_email = p_email p,
     au_raw_user_meta_data = Some [(''name'', JText (p_name p)), (''role'', JText (role_label (p_role p)))]\<rparr>"

definition store_X :: store where
  "store_X = \<lparr>s_id = 100, s_owner_id = 20, s_name = ''Example Corner Bookshop'', s_email = ''x@example.com'',
     s_address = ''1 Market Street'', s_created_at = 6, s_updated_at = 6\<rparr>"

definition store_Y :: store where
  "store_Y = \<lparr>s_id = 101, s_owner_id = 21, s_name = ''Example Harbour Bakery'', s_email = ''y@example.com'',
     s_address = ''2 Market Street'', s_created_at = 7, s_updated_at = 7\<rparr>"

definition mk_rating :: "uuid \<Rightarrow> uuid \<Rightarrow> uuid \<Rightarrow> int \<Rightarrow> timestamptz \<Rightarrow> rating" where
  "mk_rating i u s v t =
    \<lparr>r_id = i, r_user_id = u, r_store_id = s, r_rating = v, r_created_at = t, r_updated_at = t\<rparr>"

definition sample_db :: db where
  "sample_db =
    \<lparr>auth_users = map account_of [alice, bob, carol, olivia, oscar],
     profiles = [alice, bob, carol, olivia, oscar],
     stores = [store_X, store_Y],
     ratings = [mk_rating 200 10 100 3 8, mk_rating 201 11 100 5 9, mk_rating 202 12 100 4 10]\<rparr>"

definition sample_history :: "statement list" where
  "sample_history =
    [InsertAccount (account_of alice) 10 1,
     InsertAccount (account_of bob) 11 2,
     InsertAccount (account_of carol) 12 3,
     InsertAccount (account_of olivia) 20 4,
     InsertAccount (account_of oscar) 21 5,
     InsertStore store_X,
     InsertStore store_Y,
     InsertRating (mk_rating 200 10 100 3 8),
     InsertRating (mk_rating 201 11 100 5 9),
     InsertRating (mk_rating 202 12 100 4 10)]"




definition store_Z :: store where
  "store_Z = \<lparr>s_id = 102, s_owner_id = 20, s_name = ''Example Nameless Corner'', s_email = ''z@example.com'',
     s_address = [], s_created_at = 11, s_updated_at = 11\<rparr>"



definition owner_dashboard :: store_owner_dashboard where
  "owner_dashboard = \<lparr>so_profile = Some olivia, so_ratings = []\<rparr>"


definition rated_db :: db where
  "rated_db =
    sample_db\<lparr>stores := [store_X, store_Y, store_Z],
      ratings := ratings sample_db @
        [mk_rating 210 10 101 1 12, mk_rating 211 11 101 2 13, mk_rating 212 12 101 2 14]\<rparr>"


section \<open>Updating a row\<close>

text \<open>
  An update of a profile or a store by its key either changes nothing or replaces the row by
  a new row that passed the checks, the unique indexes and the references.
\<close>

lemma replace_row_idle:
  "\<forall>x \<in> set xs. key x \<noteq> i \<Longrightarrow> map (\<lambda>x. if key x = i then n else x) xs = xs"
  by (induction xs) auto

lemma set_replace_row_within:
  "set (map k (map (\<lambda>x. if key x = i then n else x) xs)) \<subseteq> insert (k n) (set (map k xs))"
  by (induction xs) auto

lemma distinct_replace_row:
  assumes "distinct (map key xs)" and "distinct (map k xs)"
    and "k n \<notin> set (map k (filter (\<lambda>x. key x \<noteq> i) xs))"
  shows "distinct (map k (map (\<lambda>x. if key x = i then n else x) xs))"
  using assms
proof (induction xs)
  case Nil
  then show ?case by simp
next
  case (Cons x xs)
  let ?g = "\<lambda>x. if key x = i then n else x"
  show ?case
  proof (cases "key x = i")
    case True
    with Cons.prems(1) have none: "\<forall>y \<in> set xs. key y \<noteq> i"
      by (metis distinct.simps(2) imageI list.simps(9) set_map)
    then have idle: "map ?g xs = xs"
      by (rule replace_row_idle)
    from none have "filter (\<lambda>x. key x \<noteq> i) xs = xs"
      by (simp add: filter_id_conv)
    with Cons.prems True show ?thesis
      by (simp add: idle)
  next
    case False
    from Cons.prems have ih: "distinct (map k (map ?g xs))"
      by (intro Cons.IH) (auto split: if_splits)
    from Cons.prems(3) False have "k x \<noteq> k n" by auto
    moreover from Cons.prems(2) have "k x \<notin> set (map k xs)" by simp
    ultimately have notin: "k x \<notin> set (map k (map ?g xs))"
      using set_replace_row_within[of k key i n xs] by blast
    have "map k (map ?g (x # xs)) = k x # map k (map ?g xs)"
      using False by simp
    with ih notin show ?thesis by (simp only: distinct.simps) simp
  qed
qed

lemma set_replace_row_subset:
  "set (map k (map (\<lambda>x. if key x = i then n else x) xs)) \<subseteq> insert (k n) (set (map k (filter (\<lambda>x. key x \<noteq> i) xs)))"
  by auto



lemma profiles_update_Inr:
  assumes "profiles_update_by_id d i f now = Inr d'"
  shows "d' = d \<or>
    (\<exists>OLD NEW. OLD \<in> set (profiles d) \<and> p_id OLD = i \<and> NEW = update_profiles_updated_at now (f OLD) \<and>
       d' = d\<lparr>profiles := map (\<lambda>p. if p_id p = i then NEW else p) (profiles d)\<rparr> \<and>
       profile_checks NEW \<and>
       p_id NEW \<notin> set (map p_id (filter (\<lambda>p. p_id p \<noteq> i) (profiles d))) \<and>
       p_user_id NEW \<notin> set (map p_user_id (filter (\<lambda>p. p_id p \<noteq> i) (profiles d))) \<and>
       (p_user_id NEW = p_user_id OLD \<or> p_user_id NEW \<in> set (map au_id (auth_users d))) \<and>
       (p_id NEW = i \<or> i \<notin> set (map s_owner_id (stores d)) \<and> i \<notin> set (map r_user_id (ratings d))))"
proof (cases "filter (\<lambda>p. p_id p = i) (profiles d)")
  case Nil
  with assms show ?thesis by (simp add: profiles_update_by_id_def)
next
  case (Cons OLD rest)
  then have "OLD \<in> set (filter (\<lambda>p. p_id p = i) (profiles d))" by simp
  then have old: "OLD \<in> set (profiles d)" "p_id OLD = i" by auto
  let ?NEW = "update_profiles_updated_at now (f OLD)"
  from assms Cons have
    "d' = d\<lparr>profiles := map (\<lambda>p. if p_id p = i then ?NEW else p) (profiles d)\<rparr> \<and>
       profile_checks ?NEW \<and>
       p_id ?NEW \<notin> set (map p_id (filter (\<lambda>p. p_id p \<noteq> i) (profiles d))) \<and>
       p_user_id ?NEW \<notin> set (map p_user_id (filter (\<lambda>p. p_id p \<noteq> i) (profiles d))) \<and>
       (p_user_id ?NEW = p_user_id OLD \<or> p_user_id ?NEW \<in> set (map au_id (auth_users d))) \<and>
       (p_id ?NEW = i \<or> i \<notin> set (map s_owner_id (stores d)) \<and> i \<notin> set (map r_user_id (ratings d)))"
    unfolding profiles_update_by_id_def Let_def profile_checks_def
    by (auto split: if_splits)
  with old show ?thesis by blast
qed

lemma stores_update_Inr:
  assumes "stores_update_by_id d i f now = Inr d'"
  shows "d' = d \<or>
    (\<exists>OLD NEW. OLD \<in> set (stores d) \<and> s_id OLD = i \<and> NEW = update_stores_updated_at now (f OLD) \<and>
       d' = d\<lparr>stores := map (\<lambda>s. if s_id s = i then NEW else s) (stores d)\<rparr> \<and>
       store_checks NEW \<and>
       s_id NEW \<notin> set (map s_id (filter (\<lambda>s. s_id s \<noteq> i) (stores d))) \<and>
       (s_owner_id NEW = s_owner_id OLD \<or> s_owner_id NEW \<in> set (map p_id (profiles d))) \<and>
       (s_id NEW = i \<or> i \<notin> set (map r_store_id (ratings d))))"
proof (cases "filter (\<lambda>s. s_id s = i) (stores d)")
  case Nil
  with assms show ?thesis by (simp add: stores_update_by_id_def)
next
  case (Cons OLD rest)
  then have "OLD \<in> set (filter (\<lambda>s. s_id s = i) (stores d))" by simp
  then have old: "OLD \<in> set (stores d)" "s_id OLD = i" by auto
  let ?NEW = "update_stores_updated_at now (f OLD)"
  from assms Cons have
    "d' = d\<lparr>stores := map (\<lambda>s. if s_id s = i then ?NEW else s) (stores d)\<rparr> \<and>
       store_checks ?NEW \<and>
       s_id ?NEW \<notin> set (map s_id (filter (\<lambda>s. s_id s \<noteq> i) (stores d))) \<and>
       (s_owner_id ?NEW = s_owner_id OLD \<or> s_owner_id ?NEW \<in> set (map p_id (profiles d))) \<and>
       (s_id ?NEW = i \<or> i \<notin> set (map r_store_id (ratings d)))"
    unfolding stores_update_by_id_def Let_def store_checks_def
    by (auto split: if_splits)
  with old show ?thesis by blast
qed



lemma keys_ok_profiles_update:
  assumes "keys_ok d" and "profiles_update_by_id d i f now = Inr d'"
  shows "keys_ok d'"
proof (cases "d' = d")
  case True
  with assms(1) show ?thesis by simp
next
  case False
  from False profiles_update_Inr[OF assms(2)] obtain OLD NEW where
     d': "d' = d\<lparr>profiles := map (\<lambda>p. if p_id p = i then NEW else p) (profiles d)\<rparr>"
      and a: "p_id NEW \<notin> set (map p_id (filter (\<lambda>p. p_id p \<noteq> i) (profiles d)))"
      and b: "p_user_id NEW \<notin> set (map p_user_id (filter (\<lambda>p. p_id p \<noteq> i) (profiles d)))"
    by blast
  from assms(1) have di: "distinct (map p_id (profiles d))"
    and du: "distinct (map p_user_id (profiles d))"
    by (simp_all add: keys_ok_def)
  from distinct_replace_row[OF di di a] distinct_replace_row[OF di du b] assms(1)
  show ?thesis unfolding d' keys_ok_def by simp
qed

lemma keys_ok_stores_update:
  assumes "keys_ok d" and "stores_update_by_id d i f now = Inr d'"
  shows "keys_ok d'"
proof (cases "d' = d")
  case True
  with assms(1) show ?thesis by simp
next
  case False
  from False stores_update_Inr[OF assms(2)] obtain OLD NEW where
     d': "d' = d\<lparr>stores := map (\<lambda>s. if s_id s = i then NEW else s) (stores d)\<rparr>"
      and a: "s_id NEW \<notin> set (map s_id (filter (\<lambda>s. s_id s \<noteq> i) (stores d)))"
    by blast
  from assms(1) have di: "distinct (map s_id (stores d))"
    by (simp add: keys_ok_def)
  from distinct_replace_row[OF di di a] assms(1)
  show ?thesis unfolding d' keys_ok_def by simp
qed

lemma list_all_replace_row:
  "list_all P xs \<Longrightarrow> P n \<Longrightarrow> list_all P (map (\<lambda>x. if key x = i then n else x) xs)"
  by (induction xs) auto

lemma checks_ok_profiles_update:
  assumes "checks_ok d" and "profiles_update_by_id d i f now = Inr d'"
  shows "checks_ok d'"
proof (cases "d' = d")
  case True
  with assms(1) show ?thesis by simp
next
  case False
  from False profiles_update_Inr[OF assms(2)] obtain OLD NEW where
     d': "d' = d\<lparr>profiles := map (\<lambda>p. if p_id p = i then NEW else p) (profiles d)\<rparr>"
      and c: "profile_checks NEW"
    by blast
  from assms(1) have "list_all profile_checks (profiles d)" by (simp add: checks_ok_def)
  from list_all_replace_row[OF this c] assms(1) show ?thesis
    unfolding d' checks_ok_def by simp
qed

lemma checks_ok_stores_update:
  assumes "checks_ok d" and "stores_update_by_id d i f now = Inr d'"
  shows "checks_ok d'"
proof (cases "d' = d")
  case True
  with assms(1) show ?thesis by simp
next
  case False
  from False stores_update_Inr[OF assms(2)] obtain OLD NEW where
     d': "d' = d\<lparr>stores := map (\<lambda>s. if s_id s = i then NEW else s) (stores d)\<rparr>"
      and c: "store_checks NEW"
    by blast
  from assms(1) have "list_all store_checks (stores d)" by (simp add: checks_ok_def)
  from list_all_replace_row[OF this c] assms(1) show ?thesis
    unfolding d' checks_ok_def by simp
qed



section \<open>The constraints hold after every history\<close>

lemma keys_ok_ratings_delete: "keys_ok d \<Longrightarrow> keys_ok (ratings_delete d sel)"
  by (simp add: keys_ok_def ratings_delete_def distinct_map_filter)

lemma keys_ok_stores_delete: "keys_ok d \<Longrightarrow> keys_ok (stores_delete d sel)"
  by (simp add: keys_ok_def stores_delete_def ratings_delete_def distinct_map_filter)

lemma keys_ok_profiles_delete: "keys_ok d \<Longrightarrow> keys_ok (profiles_delete d sel)"
  by (simp add: keys_ok_def profiles_delete_def stores_delete_def ratings_delete_def distinct_map_filter)

lemma keys_ok_auth_users_delete: "keys_ok d \<Longrightarrow> keys_ok (auth_users_delete d sel)"
  by (simp add: keys_ok_def auth_users_delete_def profiles_delete_def stores_delete_def
      ratings_delete_def distinct_map_filter)

lemma keys_ok_profiles_insert: "keys_ok d \<Longrightarrow> profiles_insert d p = Inr d' \<Longrightarrow> keys_ok d'"
  by (auto simp: keys_ok_def profiles_insert_def split: if_splits)

lemma keys_ok_stores_insert: "keys_ok d \<Longrightarrow> stores_insert d s = Inr d' \<Longrightarrow> keys_ok d'"
  by (auto simp: keys_ok_def stores_insert_def split: if_splits)

lemma keys_ok_ratings_insert: "keys_ok d \<Longrightarrow> ratings_insert d r = Inr d' \<Longrightarrow> keys_ok d'"
  by (auto simp: keys_ok_def ratings_insert_def split: if_splits)

lemma keys_ok_auth_users_insert:
  "keys_ok d \<Longrightarrow> auth_users_insert d u new_id now = Inr d' \<Longrightarrow> keys_ok d'"
proof -
  assume k: "keys_ok d" and ins: "auth_users_insert d u new_id now = Inr d'"
  from ins have fresh: "au_id u \<notin> set (map au_id (auth_users d))"
    by (auto simp: auth_users_insert_def split: if_splits)
  with k have "keys_ok (d\<lparr>auth_users := auth_users d @ [u]\<rparr>)"
    by (simp add: keys_ok_def)
  moreover from ins fresh obtain p where
    "profiles_insert (d\<lparr>auth_users := auth_users d @ [u]\<rparr>) p = Inr d'"
    by (auto simp: auth_users_insert_def handle_new_user_def split: if_splits sum.splits)
  ultimately show ?thesis by (rule keys_ok_profiles_insert)
qed

lemma updated_row_keys:
  "r_id (if sel r then update_updated_at_column now (r\<lparr>r_rating := v\<rparr>) else r) = r_id r"
  "r_user_id (if sel r then update_updated_at_column now (r\<lparr>r_rating := v\<rparr>) else r) = r_user_id r"
  "r_store_id (if sel r then update_updated_at_column now (r\<lparr>r_rating := v\<rparr>) else r) = r_store_id r"
  "r_created_at (if sel r then update_updated_at_column now (r\<lparr>r_rating := v\<rparr>) else r) = r_created_at r"
  by (simp_all add: update_updated_at_column_def)

lemma keys_ok_ratings_update:
  "keys_ok d \<Longrightarrow> ratings_update_rating d sel v now = Inr d' \<Longrightarrow> keys_ok d'"
  by (auto simp: keys_ok_def ratings_update_rating_def comp_def updated_row_keys split: if_splits)

lemma keys_ok_exec: "keys_ok d \<Longrightarrow> exec d stmt = Inr d' \<Longrightarrow> keys_ok d'"
  by (cases stmt)
    (auto intro: keys_ok_auth_users_insert keys_ok_profiles_insert keys_ok_stores_insert
      keys_ok_ratings_insert keys_ok_ratings_update keys_ok_profiles_update
      keys_ok_stores_update keys_ok_auth_users_delete
      keys_ok_profiles_delete keys_ok_stores_delete keys_ok_ratings_delete)

lemma keys_ok_step: "keys_ok d \<Longrightarrow> keys_ok (step d stmt)"
  by (auto simp: step_def split: sum.splits intro: keys_ok_exec)

lemma keys_ok_run: "keys_ok d \<Longrightarrow> keys_ok (run d stmts)"
  unfolding run_def by (induction stmts arbitrary: d) (simp_all add: keys_ok_step)

lemma keys_ok_empty: "keys_ok empty_db"
  by (simp add: keys_ok_def empty_db_def)

lemma checks_ok_ratings_delete: "checks_ok d \<Longrightarrow> checks_ok (ratings_delete d sel)"
  by (simp add: checks_ok_def ratings_delete_def list_all_iff)

lemma checks_ok_stores_delete: "checks_ok d \<Longrightarrow> checks_ok (stores_delete d sel)"
  by (simp add: checks_ok_def stores_delete_def ratings_delete_def list_all_iff)

lemma checks_ok_profiles_delete: "checks_ok d \<Longrightarrow> checks_ok (profiles_delete d sel)"
  by (simp add: checks_ok_def profiles_delete_def stores_delete_def ratings_delete_def list_all_iff)

lemma checks_ok_auth_users_delete: "checks_ok d \<Longrightarrow> checks_ok (auth_users_delete d sel)"
  by (simp add: checks_ok_def auth_users_delete_def profiles_delete_def stores_delete_def
      ratings_delete_def list_all_iff)

lemma checks_ok_profiles_insert: "checks_ok d \<Longrightarrow> profiles_insert d p = Inr d' \<Longrightarrow> checks_ok d'"
  by (auto simp: checks_ok_def profiles_insert_def profile_checks_def split: if_splits)

lemma checks_ok_stores_insert: "checks_ok d \<Longrightarrow> stores_insert d s = Inr d' \<Longrightarrow> checks_ok d'"
  by (auto simp: checks_ok_def stores_insert_def store_checks_def split: if_splits)

lemma checks_ok_ratings_insert: "checks_ok d \<Longrightarrow> ratings_insert d r = Inr d' \<Longrightarrow> checks_ok d'"
  by (auto simp: checks_ok_def ratings_insert_def rating_checks_def split: if_splits)

lemma checks_ok_auth_users_insert:
  "checks_ok d \<Longrightarrow> auth_users_insert d u new_id now = Inr d' \<Longrightarrow> checks_ok d'"
proof -
  assume k: "checks_ok d" and ins: "auth_users_insert d u new_id now = Inr d'"
  from k have "checks_ok (d\<lparr>auth_users := auth_users d @ [u]\<rparr>)"
    by (simp add: checks_ok_def)
  moreover from ins obtain p where
    "profiles_insert (d\<lparr>auth_users := auth_users d @ [u]\<rparr>) p = Inr d'"
    by (auto simp: auth_users_insert_def handle_new_user_def split: if_splits sum.splits)
  ultimately show ?thesis by (rule checks_ok_profiles_insert)
qed

lemma checks_ok_ratings_update:
  "checks_ok d \<Longrightarrow> ratings_update_rating d sel v now = Inr d' \<Longrightarrow> checks_ok d'"
  by (auto simp: checks_ok_def ratings_update_rating_def update_updated_at_column_def
      rating_checks_def list_all_iff list_ex_iff split: if_splits)

lemma checks_ok_exec: "checks_ok d \<Longrightarrow> exec d stmt = Inr d' \<Longrightarrow> checks_ok d'"
  by (cases stmt)
    (auto intro: checks_ok_auth_users_insert checks_ok_profiles_insert checks_ok_stores_insert
      checks_ok_ratings_insert checks_ok_ratings_update checks_ok_profiles_update
      checks_ok_stores_update checks_ok_auth_users_delete
      checks_ok_profiles_delete checks_ok_stores_delete checks_ok_ratings_delete)

lemma checks_ok_step: "checks_ok d \<Longrightarrow> checks_ok (step d stmt)"
  by (auto simp: step_def split: sum.splits intro: checks_ok_exec)

lemma checks_ok_run: "checks_ok d \<Longrightarrow> checks_ok (run d stmts)"
  unfolding run_def by (induction stmts arbitrary: d) (simp_all add: checks_ok_step)

lemma checks_ok_empty: "checks_ok empty_db"
  by (simp add: checks_ok_def empty_db_def)

lemma cascade_subset:
  assumes "set (map f xs) \<subseteq> set (map g ys)"
  shows "set (map f (filter (\<lambda>x. f x \<notin> set (map g (filter sel ys))) xs))
           \<subseteq> set (map g (filter (\<lambda>y. \<not> sel y) ys))"
proof
  fix k
  assume "k \<in> set (map f (filter (\<lambda>x. f x \<notin> set (map g (filter sel ys))) xs))"
  then obtain x where x: "x \<in> set xs" "k = f x" "f x \<notin> set (map g (filter sel ys))"
    by auto
  with assms obtain y where y: "y \<in> set ys" "f x = g y"
    by auto
  with x have "\<not> sel y" by auto
  with x y show "k \<in> set (map g (filter (\<lambda>y. \<not> sel y) ys))" by auto
qed




lemma refs_ok_profiles_only:
  assumes "refs_ok d"
  shows "refs_ok (ratings_delete
      (d\<lparr>profiles := filter (\<lambda>p. \<not> sel p) (profiles d),
         stores := filter (\<lambda>s. s_owner_id s \<notin> set (map p_id (filter sel (profiles d)))) (stores d)\<rparr>)
      (\<lambda>r. r_user_id r \<in> set (map p_id (filter sel (profiles d)))
         \<or> r_store_id r \<in> set (map s_id (filter (\<lambda>s. s_owner_id s \<in> set (map p_id (filter sel (profiles d)))) (stores d)))))"
    (is "refs_ok ?d'")
proof -
  let ?gone = "set (map p_id (filter sel (profiles d)))"
  let ?sgone = "set (map s_id (filter (\<lambda>s. s_owner_id s \<in> ?gone) (stores d)))"
  have a: "set (map p_user_id (profiles ?d')) \<subseteq> set (map au_id (auth_users ?d'))"
    using assms unfolding refs_ok_def ratings_delete_def by auto
  have b: "set (map s_owner_id (stores ?d')) \<subseteq> set (map p_id (profiles ?d'))"
    using cascade_subset[of s_owner_id "stores d" p_id "profiles d" sel] assms
    unfolding refs_ok_def ratings_delete_def by simp
  have "set (map r_user_id (filter (\<lambda>r. r_user_id r \<notin> ?gone) (ratings d)))
        \<subseteq> set (map p_id (filter (\<lambda>p. \<not> sel p) (profiles d)))"
    using cascade_subset[of r_user_id "ratings d" p_id "profiles d" sel] assms
    unfolding refs_ok_def by simp
  then have c: "set (map r_user_id (ratings ?d')) \<subseteq> set (map p_id (profiles ?d'))"
    unfolding ratings_delete_def by auto
  have "set (map r_store_id (filter (\<lambda>r. r_store_id r \<notin> ?sgone) (ratings d)))
        \<subseteq> set (map s_id (filter (\<lambda>s. \<not> s_owner_id s \<in> ?gone) (stores d)))"
    using cascade_subset[of r_store_id "ratings d" s_id "stores d" "\<lambda>s. s_owner_id s \<in> ?gone"] assms
    unfolding refs_ok_def by simp
  then have e: "set (map r_store_id (ratings ?d')) \<subseteq> set (map s_id (stores ?d'))"
    unfolding ratings_delete_def by auto
  from a b c e show ?thesis unfolding refs_ok_def by blast
qed

lemma profiles_delete_flat:
  "profiles_delete d sel =
    ratings_delete
      (d\<lparr>profiles := filter (\<lambda>p. \<not> sel p) (profiles d),
         stores := filter (\<lambda>s. s_owner_id s \<notin> set (map p_id (filter sel (profiles d)))) (stores d)\<rparr>)
      (\<lambda>r. r_user_id r \<in> set (map p_id (filter sel (profiles d)))
         \<or> r_store_id r \<in> set (map s_id (filter (\<lambda>s. s_owner_id s \<in> set (map p_id (filter sel (profiles d)))) (stores d))))"
  unfolding profiles_delete_def stores_delete_def ratings_delete_def
  by (simp add: conj_commute del: set_map set_filter) 

lemma refs_ok_profiles_delete: "refs_ok d \<Longrightarrow> refs_ok (profiles_delete d sel)"
  unfolding profiles_delete_flat by (rule refs_ok_profiles_only)











text \<open>The sample database is the result of the sample history.\<close>

lemma run_sample_history: "run empty_db sample_history = sample_db"
  by (simp add: run_def step_def sample_history_def sample_db_def empty_db_def
      auth_users_insert_def handle_new_user_def cast_user_role_def user_role_in_def
      jsonb_get_text_def COALESCE_def profiles_insert_def stores_insert_def ratings_insert_def
      account_of_def alice_def bob_def carol_def olivia_def oscar_def store_X_def store_Y_def mk_rating_def)

section \<open>What the requests come to\<close>



lemma rewrite_profiles_select:
  "rewrite c rel_profiles SELECT = (if c = bypassrls then Inr () else Inl (infinite_recursion rel_profiles))"
proof -
  have "fireRIRrules [] rel_profiles SELECT = Inl (infinite_recursion rel_profiles)"
    by code_simp
  then show ?thesis by (cases c) (simp_all add: rewrite_def)
qed

lemma rewrite_ratings_select: "rewrite c rel_ratings SELECT = Inr ()"
proof -
  have "fireRIRrules [] rel_ratings SELECT = Inr ()"
    by code_simp
  then show ?thesis by (cases c) (simp_all add: rewrite_def)
qed

lemma rewrite_stores_select: "rewrite c rel_stores SELECT = Inr ()"
proof -
  have "fireRIRrules [] rel_stores SELECT = Inr ()"
    by code_simp
  then show ?thesis by (cases c) (simp_all add: rewrite_def)
qed

lemma row_security_ratings_select: "row_security c d rel_ratings SELECT rw"
  by (cases c) (simp_all add: row_security_def policies_for_def pg_policy_def)

lemma row_security_stores_select: "row_security c d rel_stores SELECT rw"
  by (cases c) (simp_all add: row_security_def policies_for_def pg_policy_def)

lemma api_select_ratings_eq: "api_select_ratings c d sel = Inr (filter sel (ratings d))"
  by (simp add: api_select_ratings_def rewrite_ratings_select row_security_ratings_select)

lemma api_select_stores_eq: "api_select_stores c d sel = Inr (filter sel (stores d))"
  by (simp add: api_select_stores_def rewrite_stores_select row_security_stores_select)



section \<open>The view computes mean and count\<close>

lemma non_null_Some: "non_null (map (\<lambda>x. Some (f x)) xs) = map f xs"
  by (induction xs) (simp_all add: non_null_def)

lemma remdups_replicate_append:
  "0 < n \<Longrightarrow> k \<notin> set ks \<Longrightarrow> remdups (replicate n k @ ks) = k # remdups ks"
proof (induction n)
  case 0
  then show ?case by simp
next
  case (Suc n)
  show ?case
  proof (cases "n = 0")
    case True
    with Suc.prems show ?thesis by simp
  next
    case False
    with Suc show ?thesis by simp
  qed
qed

lemma left_join_Cons: "left_join (s # ss) rs = join_block rs s @ left_join ss rs"
  by (simp add: left_join_def)

lemma left_join_Nil: "left_join [] rs = []"
  by (simp add: left_join_def)

lemma fst_join_block: "map fst (join_block rs s) = replicate (length (join_block rs s)) s"
  by (auto simp: join_block_def comp_def map_replicate_const split: list.splits)

lemma join_block_nonempty: "0 < length (join_block rs s)"
  by (auto simp: join_block_def split: list.splits)

lemma set_fst_left_join: "set (map fst (left_join ss rs)) = set ss"
proof (induction ss)
  case Nil
  then show ?case by (simp add: left_join_Nil)
next
  case (Cons s ss)
  have "set (map fst (join_block rs s)) = {s}"
    using join_block_nonempty[of rs s] by (simp add: fst_join_block)
  with Cons show ?case by (simp add: left_join_Cons)
qed

lemma remdups_fst_left_join:
  "distinct ss \<Longrightarrow> remdups (map fst (left_join ss rs)) = ss"
proof (induction ss)
  case Nil
  then show ?case by (simp add: left_join_Nil)
next
  case (Cons s ss)
  then have "s \<notin> set (map fst (left_join ss rs))"
    by (simp only: set_fst_left_join) simp
  then have "remdups (replicate (length (join_block rs s)) s @ map fst (left_join ss rs))
      = s # remdups (map fst (left_join ss rs))"
    by (rule remdups_replicate_append[OF join_block_nonempty])
  with Cons show ?case by (simp add: left_join_Cons fst_join_block)
qed

lemma filter_join_block:
  "filter (\<lambda>row. fst row = k) (join_block rs s) = (if s = k then join_block rs s else [])"
  by (auto simp: join_block_def split: list.splits)

lemma filter_left_join_notin:
  "k \<notin> set ss \<Longrightarrow> filter (\<lambda>row. fst row = k) (left_join ss rs) = []"
  by (induction ss) (auto simp: left_join_Nil left_join_Cons filter_join_block)

lemma filter_left_join:
  "distinct ss \<Longrightarrow> k \<in> set ss \<Longrightarrow> filter (\<lambda>row. fst row = k) (left_join ss rs) = join_block rs k"
  by (induction ss) (auto simp: left_join_Nil left_join_Cons filter_join_block filter_left_join_notin)

lemma group_by_left_join:
  assumes "distinct ss"
  shows "group_by (left_join ss rs) = map (\<lambda>s. (s, map snd (join_block rs s))) ss"
  unfolding group_by_def remdups_fst_left_join[OF assms]
  by (rule map_cong[OF refl]) (simp add: filter_left_join[OF assms])

lemma filter_store_id_sym:
  "filter (\<lambda>r. s_id s = r_store_id r) rs = filter (\<lambda>r. r_store_id r = s_id s) rs"
  by (rule filter_cong) auto

lemma numeric_div_round:
  assumes "0 < c"
  shows "numeric_div r s c = round_half_away r (of_int s / of_nat c)"
proof -
  let ?N = "\<bar>s\<bar> * 10 ^ r"
  have c: "(0::rat) < of_nat c" using assms by simp
  have "(of_int (2 * ?N + int c) :: rat) / of_int (2 * int c) = of_int ?N / of_nat c + 1 / 2"
    using c by (simp add: field_simps)
  then have "\<lfloor>(of_int ?N :: rat) / of_nat c + 1 / 2\<rfloor> = (2 * ?N + int c) div (2 * int c)"
    by (metis floor_divide_of_int_eq)
  moreover have "\<bar>(of_int s :: rat) / of_nat c\<bar> * 10 ^ r = of_int ?N / of_nat c"
    by (simp add: abs_divide)
  moreover have "sgn ((of_int s :: rat) / of_nat c) = of_int (sgn s)"
    using c by (simp add: sgn_divide sgn_of_nat) (simp add: sgn_if)
  ultimately show ?thesis
    unfolding numeric_div_def round_half_away_def by (simp add: mult.assoc)
qed

lemma round_half_away_close:
  "\<bar>round_half_away r q - q\<bar> \<le> 1 / (2 * 10 ^ r)"
proof -
  let ?x = "\<bar>q\<bar> * 10 ^ r"
  have p: "(0::rat) < 10 ^ r" by simp
  have f: "\<bar>of_int \<lfloor>?x + 1 / 2\<rfloor> - ?x\<bar> \<le> 1 / 2"
    by linarith
  have "round_half_away r q - q = sgn q * ((of_int \<lfloor>?x + 1 / 2\<rfloor> - ?x) / 10 ^ r)"
    unfolding round_half_away_def using p
    by (simp add: field_simps) (metis abs_sgn mult.commute mult_sgn_abs)
  then have "\<bar>round_half_away r q - q\<bar> = \<bar>sgn q\<bar> * (\<bar>of_int \<lfloor>?x + 1 / 2\<rfloor> - ?x\<bar> / 10 ^ r)"
    by (simp add: abs_mult)
  also have "\<dots> \<le> 1 * ((1 / 2) / 10 ^ r)"
    using f p by (intro mult_mono divide_right_mono) (auto simp: abs_sgn_eq)
  finally show ?thesis by simp
qed

lemma rounded_mean_Nil: "rounded_mean div_scale [] = 0"
  by (simp add: rounded_mean_def round_half_away_def spec_mean_def)

lemma rounded_mean_close:
  "\<bar>rounded_mean div_scale xs - spec_mean xs\<bar> \<le> 1 / (2 * 10 ^ div_scale (sum_list xs) (length xs))"
  unfolding rounded_mean_def by (rule round_half_away_close)

lemma AVG_rounded_mean:
  "AVG div_scale (map Some (x # xs)) = Some (rounded_mean div_scale (x # xs))"
proof -
  have "non_null (map Some (x # xs)) = x # xs"
    using non_null_Some[of "\<lambda>v. v" "x # xs"] by simp
  then show ?thesis
    unfolding AVG_def rounded_mean_def
    by (simp add: numeric_div_round spec_mean_def del: sum_list.Cons)
qed

lemma aggregate_join_block:
  "select_list div_scale (s, map snd (join_block (ratings d) s)) = spec_summary div_scale d s"
proof (cases "ratings_of d s")
  case Nil
  then show ?thesis
    by (simp add: select_list_def join_block_def spec_summary_def rounded_mean_Nil ratings_of_def
        filter_store_id_sym AVG_def COUNT_def COALESCE_def non_null_def)
next
  case (Cons m ms)
  have snd_eq: "map snd (join_block (ratings d) s) = map Some (m # ms)"
    using Cons by (simp add: join_block_def ratings_of_def filter_store_id_sym)
  have a: "map (map_option r_rating) (map Some (m # ms)) = map Some (r_rating m # map r_rating ms)"
    by simp
  have b: "non_null (map (map_option r_id) (map Some (m # ms))) = map r_id (m # ms)"
    using non_null_Some[of r_id "m # ms"] by (simp add: comp_def)
  show ?thesis
    unfolding select_list_def fst_conv snd_conv snd_eq a AVG_rounded_mean COUNT_def b
    by (simp add: spec_summary_def Cons COALESCE_def)
qed

lemma store_ratings_summary:
  assumes "distinct (map s_id (stores d))"
  shows "store_ratings div_scale d = map (spec_summary div_scale d) (stores d)"
proof -
  from assms have "distinct (stores d)" by (simp add: distinct_map)
  then show ?thesis
    unfolding store_ratings_def
    by (simp add: group_by_left_join aggregate_join_block comp_def)
qed

text \<open>
  C1, as the claim states it, fails: the average of the view is a decimal, and the mean of the
  scores 1, 2, 2 is not one.  For the sum 5 and the count 3 the database gives the quotient
  16 digits after the point; the view has 1.6666666666666667 where the mean is 5/3.
\<close>

theorem view_average_is_rounded:
  "map r_rating (ratings_of rated_db store_Y) = [1, 2, 2] \<and>
   spec_mean (map r_rating (ratings_of rated_db store_Y)) = 5 / 3 \<and>
   set (map (\<lambda>row. (s_id (sr_store row), average_rating row)) (store_ratings (\<lambda>s c. 16) rated_db))
     = {(100, 4), (101, 16666666666666667 / 10000000000000000), (102, 0)} \<and>
   (16666666666666667 / 10000000000000000 :: rat) \<noteq> 5 / 3"
proof -
  have a: "map r_rating (ratings_of rated_db store_Y) = [1, 2, 2]"
    by code_simp
  have b: "spec_mean (map r_rating (ratings_of rated_db store_Y)) = 5 / 3"
    by code_simp
  have "map (\<lambda>row. (s_id (sr_store row), average_rating row)) (store_ratings (\<lambda>s c. 16) rated_db)
     = [(100, 4), (101, 16666666666666667 / 10000000000000000), (102, 0)]"
    by code_simp
  then have c: "set (map (\<lambda>row. (s_id (sr_store row), average_rating row))
                   (store_ratings (\<lambda>s c. 16) rated_db))
     = {(100, 4), (101, 16666666666666667 / 10000000000000000), (102, 0)}"
    by (simp only: list.set)
  have e: "(16666666666666667 / 10000000000000000 :: rat) \<noteq> 5 / 3"
    by simp
  from a b c e show ?thesis by (intro conjI)
qed

text \<open>
  C1, amended.  With the primary key of \<^verbatim>\<open>stores\<close> in force, the view has one row for each
  store and no other.  In the row of a store \<^verbatim>\<open>total_ratings\<close> is the number of the
  ratings of that store, and \<^verbatim>\<open>average_rating\<close> is the arithmetic mean of their scores as the
  decimal that the database computes: the mean rounded at the scale of the division, so within
  half a unit of its last digit of the mean, and 0 when the store has no rating.
\<close>

theorem store_ratings_mean_count:
  assumes "distinct (map s_id (stores d))"
  shows "distinct (map sr_store (store_ratings div_scale d)) \<and>
         set (map sr_store (store_ratings div_scale d)) = set (stores d) \<and>
         list_all
           (\<lambda>row. total_ratings row = length (ratings_of d (sr_store row)) \<and>
                  average_rating row
                    = rounded_mean div_scale (map r_rating (ratings_of d (sr_store row))) \<and>
                  \<bar>average_rating row - spec_mean (map r_rating (ratings_of d (sr_store row)))\<bar>
                    \<le> 1 / (2 * 10 ^ div_scale (sum_list (map r_rating (ratings_of d (sr_store row))))
                                        (length (map r_rating (ratings_of d (sr_store row))))) \<and>
                  (ratings_of d (sr_store row) = [] \<longrightarrow> average_rating row = 0))
           (store_ratings div_scale d)"
proof -
  note v = store_ratings_summary[OF assms, of div_scale]
  have "map sr_store (map (spec_summary div_scale d) (stores d)) = stores d"
    by (simp add: comp_def spec_summary_def)
  moreover have "list_all
           (\<lambda>row. total_ratings row = length (ratings_of d (sr_store row)) \<and>
                  average_rating row
                    = rounded_mean div_scale (map r_rating (ratings_of d (sr_store row))) \<and>
                  \<bar>average_rating row - spec_mean (map r_rating (ratings_of d (sr_store row)))\<bar>
                    \<le> 1 / (2 * 10 ^ div_scale (sum_list (map r_rating (ratings_of d (sr_store row))))
                                        (length (map r_rating (ratings_of d (sr_store row))))) \<and>
                  (ratings_of d (sr_store row) = [] \<longrightarrow> average_rating row = 0))
           (map (spec_summary div_scale d) (stores d))"
    unfolding list_all_iff
  proof
    fix row
    assume "row \<in> set (map (spec_summary div_scale d) (stores d))"
    then obtain s where row: "row = spec_summary div_scale d s" by auto
    show "total_ratings row = length (ratings_of d (sr_store row)) \<and>
                  average_rating row
                    = rounded_mean div_scale (map r_rating (ratings_of d (sr_store row))) \<and>
                  \<bar>average_rating row - spec_mean (map r_rating (ratings_of d (sr_store row)))\<bar>
                    \<le> 1 / (2 * 10 ^ div_scale (sum_list (map r_rating (ratings_of d (sr_store row))))
                                        (length (map r_rating (ratings_of d (sr_store row))))) \<and>
                  (ratings_of d (sr_store row) = [] \<longrightarrow> average_rating row = 0)"
      unfolding row spec_summary_def
      using rounded_mean_close[of div_scale "map r_rating (ratings_of d s)"]
      by (simp add: rounded_mean_Nil)
  qed
  moreover from assms have "distinct (stores d)" by (simp add: distinct_map)
  ultimately show ?thesis unfolding v by simp
qed

theorem store_ratings_mean_count_witness:
  "distinct (map s_id (stores rated_db)) \<and>
   set (store_ratings (\<lambda>s c. 16) rated_db) =
     {\<lparr>sr_store = store_X, average_rating = 4, total_ratings = 3\<rparr>,
      \<lparr>sr_store = store_Y, average_rating = 16666666666666667 / 10000000000000000,
        total_ratings = 3\<rparr>,
      \<lparr>sr_store = store_Z, average_rating = 0, total_ratings = 0\<rparr>} \<and>
   set (map sr_store (store_ratings (\<lambda>s c. 16) rated_db)) = {store_X, store_Y, store_Z} \<and>
   spec_mean (map r_rating (ratings_of rated_db store_X)) = 4 \<and>
   spec_mean (map r_rating (ratings_of rated_db store_Y)) = 5 / 3 \<and>
   \<bar>(16666666666666667 / 10000000000000000 :: rat) - 5 / 3\<bar> \<le> 1 / (2 * 10 ^ 16)"
proof -
  have d: "distinct (map s_id (stores rated_db))"
    by (simp add: rated_db_def store_X_def store_Y_def store_Z_def)
  have "store_ratings (\<lambda>s c. 16) rated_db =
     [\<lparr>sr_store = store_X, average_rating = 4, total_ratings = 3\<rparr>,
      \<lparr>sr_store = store_Y, average_rating = 16666666666666667 / 10000000000000000,
        total_ratings = 3\<rparr>,
      \<lparr>sr_store = store_Z, average_rating = 0, total_ratings = 0\<rparr>]"
    by code_simp
  then have v: "set (store_ratings (\<lambda>s c. 16) rated_db) =
     {\<lparr>sr_store = store_X, average_rating = 4, total_ratings = 3\<rparr>,
      \<lparr>sr_store = store_Y, average_rating = 16666666666666667 / 10000000000000000,
        total_ratings = 3\<rparr>,
      \<lparr>sr_store = store_Z, average_rating = 0, total_ratings = 0\<rparr>}"
    by (simp only: list.set)
  have x: "spec_mean (map r_rating (ratings_of rated_db store_X)) = 4"
    by code_simp
  have m: "spec_mean (map r_rating (ratings_of rated_db store_Y)) = 5 / 3"
    by code_simp
  note t = store_ratings_mean_count [OF d, of "\<lambda>s c. 16"]
  from t have s: "set (map sr_store (store_ratings (\<lambda>s c. 16) rated_db)) = {store_X, store_Y, store_Z}"
    by (simp add: rated_db_def)
  from t have "\<forall>row \<in> set (store_ratings (\<lambda>s c. 16) rated_db).
      \<bar>average_rating row - spec_mean (map r_rating (ratings_of rated_db (sr_store row)))\<bar>
        \<le> 1 / (2 * 10 ^ 16)"
    unfolding list_all_iff by blast
  then have "\<bar>(16666666666666667 / 10000000000000000 :: rat) - 5 / 3\<bar> \<le> 1 / (2 * 10 ^ 16)"
    unfolding v using m by simp
  with d v s x m show ?thesis by (intro conjI)
qed

section \<open>Policies of \<^verbatim>\<open>profiles\<close> that read \<^verbatim>\<open>profiles\<close>\<close>

text \<open>
  C3.  The policies \<^verbatim>\<open>Admins can view all profiles\<close> and \<^verbatim>\<open>Admins can insert profiles\<close> look
  the caller's role up with a sub-select on \<^verbatim>\<open>profiles\<close>.  That sub-select is a \<^verbatim>\<open>SELECT\<close> on a
  table with row security, so the engine expands the policies of \<^verbatim>\<open>profiles\<close> inside it again:
  for a caller subject to row security, a select or an insert on \<^verbatim>\<open>profiles\<close> ends with the
  infinite-recursion error before any row is read.  The lookup is not a direct fetch of the
  caller's row.
\<close>

theorem profiles_policy_recursion:
  "q_exists_admin \<in> set (security_quals rel_profiles SELECT) \<and>
   sublinks q_exists_admin = [rel_profiles] \<and>
   fireRIRrules [] rel_profiles SELECT = Inl (infinite_recursion rel_profiles) \<and>
   fireRIRrules [] rel_profiles INSERT = Inl (infinite_recursion rel_profiles) \<and>
   rewrite (authenticated u) rel_profiles SELECT = Inl (infinite_recursion rel_profiles) \<and>
   rewrite (authenticated u) rel_profiles INSERT = Inl (infinite_recursion rel_profiles)"
proof -
  have s: "fireRIRrules [] rel_profiles SELECT = Inl (infinite_recursion rel_profiles)"
    by code_simp
  have i: "fireRIRrules [] rel_profiles INSERT = Inl (infinite_recursion rel_profiles)"
    by code_simp
  have q: "q_exists_admin \<in> set (security_quals rel_profiles SELECT)"
    by (simp add: security_quals_def policies_for_def pg_policy_def)
  from s i q show ?thesis by (simp add: rewrite_def)
qed

section \<open>Provisioning of a profile\<close>






section \<open>A name of the wrong length\<close>




section \<open>Deleting a profile\<close>

text \<open>
  C9.  Deleting an existing profile removes, in the one statement, the profile, every store it
  owns, every rating it wrote and every rating of a store removed, and nothing else; if every
  reference pointed to a row before, every reference does after.
\<close>

theorem profile_delete_cascades:
  assumes "pid \<in> set (map p_id (profiles d))"
  shows
  "pid \<notin> set (map p_id (profiles (profiles_delete d (\<lambda>p. p_id p = pid)))) \<and>
   pid \<notin> set (map s_owner_id (stores (profiles_delete d (\<lambda>p. p_id p = pid)))) \<and>
   pid \<notin> set (map r_user_id (ratings (profiles_delete d (\<lambda>p. p_id p = pid)))) \<and>
   set (map r_store_id (ratings (profiles_delete d (\<lambda>p. p_id p = pid))))
     \<inter> set (map s_id (filter (\<lambda>s. s_owner_id s = pid) (stores d))) = {} \<and>
   profiles (profiles_delete d (\<lambda>p. p_id p = pid)) = filter (\<lambda>p. p_id p \<noteq> pid) (profiles d) \<and>
   stores (profiles_delete d (\<lambda>p. p_id p = pid)) = filter (\<lambda>s. s_owner_id s \<noteq> pid) (stores d) \<and>
   ratings (profiles_delete d (\<lambda>p. p_id p = pid)) =
     filter (\<lambda>r. r_user_id r \<noteq> pid \<and>
                 r_store_id r \<notin> set (map s_id (filter (\<lambda>s. s_owner_id s = pid) (stores d))))
       (ratings d) \<and>
   (refs_ok d \<longrightarrow> refs_ok (profiles_delete d (\<lambda>p. p_id p = pid)))"
proof -
  from assms have gone: "set (map p_id (filter (\<lambda>p. p_id p = pid) (profiles d))) = {pid}"
    by auto
  show ?thesis
    unfolding profiles_delete_flat ratings_delete_def gone
    using refs_ok_profiles_delete[of d "\<lambda>p. p_id p = pid"]
    unfolding profiles_delete_flat ratings_delete_def gone
    by (auto simp: conj_commute cong: filter_cong)
qed

theorem profile_delete_cascades_witness:
  "p_id olivia \<in> set (map p_id (profiles sample_db)) \<and> refs_ok sample_db \<and>
   profiles_delete sample_db (\<lambda>p. p_id p = p_id olivia) =
     sample_db\<lparr>profiles := [alice, bob, carol, oscar], stores := [store_Y], ratings := []\<rparr> \<and>
   refs_ok (profiles_delete sample_db (\<lambda>p. p_id p = p_id olivia))"
proof -
  have m: "p_id olivia \<in> set (map p_id (profiles sample_db))"
    by (simp add: sample_db_def)
  have r: "refs_ok sample_db"
    by (simp add: refs_ok_def sample_db_def account_of_def alice_def bob_def carol_def olivia_def oscar_def
        store_X_def store_Y_def mk_rating_def)
  have e: "profiles_delete sample_db (\<lambda>p. p_id p = p_id olivia) =
     sample_db\<lparr>profiles := [alice, bob, carol, oscar], stores := [store_Y], ratings := []\<rparr>"
    by (simp add: profiles_delete_def stores_delete_def ratings_delete_def sample_db_def
        alice_def bob_def carol_def olivia_def oscar_def store_X_def store_Y_def mk_rating_def)
  from profile_delete_cascades [OF m] r
  have x: "refs_ok (profiles_delete sample_db (\<lambda>p. p_id p = p_id olivia))"
    by blast
  from m r e x show ?thesis by (intro conjI)
qed

section \<open>One rating for a rater and a store\<close>

lemma ratings_insert_duplicate_pair:
  assumes "(r_user_id r, r_store_id r) \<in> set (map (\<lambda>x. (r_user_id x, r_store_id x)) (ratings d))"
  shows "ratings_insert d r \<in>
           {Inl (check_violation ratings_rating_check), Inl (unique_violation ratings_pkey),
            Inl (unique_violation ratings_user_id_store_id_key)}"
    and "rating_checks r \<Longrightarrow> r_id r \<notin> set (map r_id (ratings d)) \<Longrightarrow>
           ratings_insert d r = Inl (unique_violation ratings_user_id_store_id_key)"
  using assms by (simp_all add: ratings_insert_def rating_checks_def)

lemma api_insert_rating_error:
  "ratings_insert d r = Inl e \<Longrightarrow> isl (api_insert_rating c d r)"
  by (simp add: api_insert_rating_def split: sum.splits)

text \<open>
  C2.  After every history the table \<^verbatim>\<open>ratings\<close> has at most one row for a rater and a store.
  An insert for a pair that has a row fails with a constraint violation and changes nothing:
  the violation is that of the unique constraint on the pair whenever the score is within 1 to
  5 and the identifier is new.  Sent by a client, under any caller, the insert fails too.
\<close>

theorem one_rating_per_rater_and_store:
  "distinct (map (\<lambda>x. (r_user_id x, r_store_id x)) (ratings (run empty_db stmts))) \<and>
   ((r_user_id r, r_store_id r)
      \<in> set (map (\<lambda>x. (r_user_id x, r_store_id x)) (ratings (run empty_db stmts))) \<longrightarrow>
    ratings_insert (run empty_db stmts) r \<in>
      {Inl (check_violation ratings_rating_check), Inl (unique_violation ratings_pkey),
       Inl (unique_violation ratings_user_id_store_id_key)} \<and>
    (rating_checks r \<and> r_id r \<notin> set (map r_id (ratings (run empty_db stmts))) \<longrightarrow>
       ratings_insert (run empty_db stmts) r = Inl (unique_violation ratings_user_id_store_id_key)) \<and>
    step (run empty_db stmts) (InsertRating r) = run empty_db stmts \<and>
    isl (api_insert_rating c (run empty_db stmts) r))"
proof -
  let ?d = "run empty_db stmts"
  have "keys_ok ?d" by (rule keys_ok_run[OF keys_ok_empty])
  then have uniq: "distinct (map (\<lambda>x. (r_user_id x, r_store_id x)) (ratings ?d))"
    by (simp add: keys_ok_def)
  have rest: "ratings_insert ?d r \<in>
      {Inl (check_violation ratings_rating_check), Inl (unique_violation ratings_pkey),
       Inl (unique_violation ratings_user_id_store_id_key)} \<and>
    (rating_checks r \<and> r_id r \<notin> set (map r_id (ratings ?d)) \<longrightarrow>
       ratings_insert ?d r = Inl (unique_violation ratings_user_id_store_id_key)) \<and>
    step ?d (InsertRating r) = ?d \<and>
    isl (api_insert_rating c ?d r)"
    if dup: "(r_user_id r, r_store_id r) \<in> set (map (\<lambda>x. (r_user_id x, r_store_id x)) (ratings ?d))"
  proof -
    note a = ratings_insert_duplicate_pair(1)[OF dup]
    then obtain e where e: "ratings_insert ?d r = Inl e" by auto
    then have s: "step ?d (InsertRating r) = ?d" by (simp add: step_def)
    from e have i: "isl (api_insert_rating c ?d r)" by (rule api_insert_rating_error)
    from a s i ratings_insert_duplicate_pair(2)[OF dup] show ?thesis by blast
  qed
  from uniq rest show ?thesis by blast
qed

theorem one_rating_per_rater_and_store_witness:
  "(r_user_id (mk_rating 203 10 100 5 11), r_store_id (mk_rating 203 10 100 5 11))
      \<in> set (map (\<lambda>x. (r_user_id x, r_store_id x)) (ratings (run empty_db sample_history))) \<and>
   rating_checks (mk_rating 203 10 100 5 11) \<and>
   r_id (mk_rating 203 10 100 5 11) \<notin> set (map r_id (ratings (run empty_db sample_history))) \<and>
   ratings_insert (run empty_db sample_history) (mk_rating 203 10 100 5 11)
     = Inl (unique_violation ratings_user_id_store_id_key) \<and>
   map (\<lambda>x. (r_user_id x, r_store_id x)) (ratings (run empty_db sample_history))
     = [(10, 100), (11, 100), (12, 100)]"
proof -
  have d: "(r_user_id (mk_rating 203 10 100 5 11), r_store_id (mk_rating 203 10 100 5 11))
      \<in> set (map (\<lambda>x. (r_user_id x, r_store_id x)) (ratings (run empty_db sample_history)))"
    by (simp add: run_sample_history sample_db_def mk_rating_def)
  have c: "rating_checks (mk_rating 203 10 100 5 11)"
    by (simp add: rating_checks_def mk_rating_def)
  have f: "r_id (mk_rating 203 10 100 5 11) \<notin> set (map r_id (ratings (run empty_db sample_history)))"
    by (simp add: run_sample_history sample_db_def mk_rating_def)
  have m: "map (\<lambda>x. (r_user_id x, r_store_id x)) (ratings (run empty_db sample_history))
     = [(10, 100), (11, 100), (12, 100)]"
    by (simp add: run_sample_history sample_db_def mk_rating_def)
  from one_rating_per_rater_and_store [of sample_history "mk_rating 203 10 100 5 11" bypassrls] d c f
  have "ratings_insert (run empty_db sample_history) (mk_rating 203 10 100 5 11)
     = Inl (unique_violation ratings_user_id_store_id_key)"
    by blast
  with d c f m show ?thesis by (intro conjI)
qed

section \<open>Length bounds\<close>

text \<open>
  C4, as the claim states it, fails: the table \<^verbatim>\<open>stores\<close> accepts a store whose address is the
  empty string, which the form validation would refuse.  Its address is declared
  \<^verbatim>\<open>NOT NULL CHECK (length(address) <= 400)\<close>, without a lower bound.
\<close>

theorem empty_store_address_accepted:
  "stores_insert sample_db store_Z = Inr (sample_db\<lparr>stores := [store_X, store_Y, store_Z]\<rparr>) \<and>
   length (s_address store_Z) = 0 \<and>
   \<not> storeSchema (\<lambda>e. True) \<lparr>sf_name = s_name store_Z, sf_email = s_email store_Z,
        sf_address = s_address store_Z, sf_ownerEmail = p_email olivia\<rparr>"
  by (simp add: stores_insert_def sample_db_def store_X_def store_Y_def store_Z_def
      storeSchema_def alice_def bob_def carol_def olivia_def oscar_def)

lemma check_rejected:
  "\<not> profile_checks p \<Longrightarrow>
     profiles_insert d p \<in> {Inl (check_violation profiles_address_check), Inl (check_violation profiles_name_check)}"
  "\<not> store_checks s \<Longrightarrow>
     stores_insert d s \<in> {Inl (check_violation stores_address_check), Inl (check_violation stores_name_check)}"
  by (auto simp: profile_checks_def profiles_insert_def store_checks_def stores_insert_def)

lemma check_rejected_update:
  "filter (\<lambda>p. p_id p = i) (profiles d) = p_old # p_rest \<Longrightarrow> \<not> profile_checks (p_set p_old) \<Longrightarrow>
     profiles_update_by_id d i p_set now
       \<in> {Inl (check_violation profiles_address_check), Inl (check_violation profiles_name_check)}"
  "filter (\<lambda>s. s_id s = j) (stores d) = s_old # s_rest \<Longrightarrow> \<not> store_checks (s_set s_old) \<Longrightarrow>
     stores_update_by_id d j s_set now
       \<in> {Inl (check_violation stores_address_check), Inl (check_violation stores_name_check)}"
  by (auto simp: profile_checks_def profiles_update_by_id_def update_profiles_updated_at_def
      store_checks_def stores_update_by_id_def update_stores_updated_at_def Let_def)

text \<open>
  C4, amended.  After every history of inserts, registrations, updates and deletes, each
  profile and each store has a name of 20 to 60 characters and an address of at most 400 (a
  profile may have none).  A write of a row outside these bounds is rejected by a check
  constraint: the insert of a profile, which is also the write of the registration trigger,
  the insert of a store, and the update of a profile or of a store, whatever its \<^verbatim>\<open>SET\<close>
  clause.  The lower bound 1 on the address of a store is a rule of the form validation
  \<^verbatim>\<open>storeSchema\<close> in the browser only.
\<close>

theorem storage_checks_enforced:
  "list_all profile_checks (profiles (run empty_db stmts)) \<and>
   list_all store_checks (stores (run empty_db stmts)) \<and>
   (\<not> profile_checks p \<longrightarrow>
      profiles_insert d p \<in> {Inl (check_violation profiles_address_check),
                               Inl (check_violation profiles_name_check)}) \<and>
   (\<not> store_checks s \<longrightarrow>
      stores_insert d s \<in> {Inl (check_violation stores_address_check),
                             Inl (check_violation stores_name_check)}) \<and>
   (filter (\<lambda>p. p_id p = i) (profiles d) = p_old # p_rest \<and> \<not> profile_checks (p_set p_old) \<longrightarrow>
      profiles_update_by_id d i p_set now
        \<in> {Inl (check_violation profiles_address_check),
            Inl (check_violation profiles_name_check)}) \<and>
   (filter (\<lambda>s. s_id s = j) (stores d) = s_old # s_rest \<and> \<not> store_checks (s_set s_old) \<longrightarrow>
      stores_update_by_id d j s_set now
        \<in> {Inl (check_violation stores_address_check),
            Inl (check_violation stores_name_check)}) \<and>
   (storeSchema is_email f \<longrightarrow> length (sf_address f) \<ge> 1)"
proof -
  have "checks_ok (run empty_db stmts)" by (rule checks_ok_run[OF checks_ok_empty])
  then have "list_all profile_checks (profiles (run empty_db stmts))"
    and "list_all store_checks (stores (run empty_db stmts))"
    by (simp_all add: checks_ok_def)
  moreover have "storeSchema is_email f \<longrightarrow> length (sf_address f) \<ge> 1"
    by (simp add: storeSchema_def)
  ultimately show ?thesis
    using check_rejected(1)[of p d] check_rejected(2)[of s d]
      check_rejected_update(1)[of i d p_old p_rest p_set now]
      check_rejected_update(2)[of j d s_old s_rest s_set now]
    by blast
qed

theorem storage_checks_enforced_witness:
  "\<not> store_checks (store_X\<lparr>s_name := ''Too short''\<rparr>) \<and>
   stores_insert sample_db (store_X\<lparr>s_name := ''Too short''\<rparr>) = Inl (check_violation stores_name_check) \<and>
   \<not> profile_checks (alice\<lparr>p_address := Some (replicate 401 CHR ''a'')\<rparr>) \<and>
   profiles_insert sample_db (alice\<lparr>p_address := Some (replicate 401 CHR ''a'')\<rparr>)
     = Inl (check_violation profiles_address_check) \<and>
   filter (\<lambda>p. p_id p = 10) (profiles sample_db) = [alice] \<and>
   \<not> profile_checks (alice\<lparr>p_name := ''Al''\<rparr>) \<and>
   profiles_update_by_id sample_db 10 (\<lambda>p. p\<lparr>p_name := ''Al''\<rparr>) 20
     = Inl (check_violation profiles_name_check) \<and>
   filter (\<lambda>s. s_id s = 100) (stores sample_db) = [store_X] \<and>
   \<not> store_checks (store_X\<lparr>s_address := replicate 401 CHR ''a''\<rparr>) \<and>
   stores_update_by_id sample_db 100 (\<lambda>s. s\<lparr>s_address := replicate 401 CHR ''a''\<rparr>) 20
     = Inl (check_violation stores_address_check) \<and>
   storeSchema (\<lambda>e. True)
     \<lparr>sf_name = s_name store_X, sf_email = s_email store_X, sf_address = s_address store_X,
      sf_ownerEmail = p_email olivia\<rparr> \<and>
   length (s_address store_X) \<ge> 1 \<and>
   list_all store_checks (stores (run empty_db sample_history)) \<and>
   list_all profile_checks (profiles (run empty_db sample_history))"
proof -
  have a: "\<not> store_checks (store_X\<lparr>s_name := ''Too short''\<rparr>)"
    by (simp add: store_checks_def store_X_def)
  have b: "\<not> profile_checks (alice\<lparr>p_address := Some (replicate 401 CHR ''a'')\<rparr>)"
    by (simp add: profile_checks_def alice_def)
  have c: "stores_insert sample_db (store_X\<lparr>s_name := ''Too short''\<rparr>) \<noteq> Inl (check_violation stores_address_check)"
    by (simp add: stores_insert_def store_X_def)
  have e: "profiles_insert sample_db (alice\<lparr>p_address := Some (replicate 401 CHR ''a'')\<rparr>)
      \<noteq> Inl (check_violation profiles_name_check)"
    by (simp add: profiles_insert_def alice_def)
  have f: "storeSchema (\<lambda>e. True)
     \<lparr>sf_name = s_name store_X, sf_email = s_email store_X, sf_address = s_address store_X,
      sf_ownerEmail = p_email olivia\<rparr>"
    by (simp add: storeSchema_def store_X_def)
  have g: "filter (\<lambda>p. p_id p = 10) (profiles sample_db) = [alice]"
    by (simp add: sample_db_def alice_def bob_def carol_def olivia_def oscar_def)
  have h: "\<not> profile_checks (alice\<lparr>p_name := ''Al''\<rparr>)"
    by (simp add: profile_checks_def alice_def)
  have k: "profiles_update_by_id sample_db 10 (\<lambda>p. p\<lparr>p_name := ''Al''\<rparr>) 20
      \<noteq> Inl (check_violation profiles_address_check)"
    by (simp add: profiles_update_by_id_def g update_profiles_updated_at_def Let_def alice_def)
  have l: "filter (\<lambda>s. s_id s = 100) (stores sample_db) = [store_X]"
    by (simp add: sample_db_def store_X_def store_Y_def)
  have m: "\<not> store_checks (store_X\<lparr>s_address := replicate 401 CHR ''a''\<rparr>)"
    by (simp add: store_checks_def store_X_def)
  have n: "stores_update_by_id sample_db 100 (\<lambda>s. s\<lparr>s_address := replicate 401 CHR ''a''\<rparr>) 20
      \<noteq> Inl (check_violation stores_name_check)"
    by (simp add: stores_update_by_id_def l update_stores_updated_at_def Let_def store_X_def)
  from storage_checks_enforced [of sample_history "alice\<lparr>p_address := Some (replicate 401 CHR ''a'')\<rparr>"
      sample_db "store_X\<lparr>s_name := ''Too short''\<rparr>"
      10 alice "[]" "\<lambda>p. p\<lparr>p_name := ''Al''\<rparr>" 20
      100 store_X "[]" "\<lambda>s. s\<lparr>s_address := replicate 401 CHR ''a''\<rparr>"
      "\<lambda>e. True"
      "\<lparr>sf_name = s_name store_X, sf_email = s_email store_X, sf_address = s_address store_X,
        sf_ownerEmail = p_email olivia\<rparr>"] a b c e f g h k l m n
  show ?thesis by auto
qed

section \<open>A failed insert of a rating\<close>





section \<open>The ratings of a store with their raters\<close>

text \<open>
  C7.  The select of \<^verbatim>\<open>fetchRatings\<close> embeds \<^verbatim>\<open>profiles\<close>, read as the caller.  For the signed-in
  owner of a store with three ratings, whatever order the database gives to the rows, the
  request ends with the infinite-recursion error of the policies of \<^verbatim>\<open>profiles\<close>: the component
  raises \<^verbatim>\<open>Failed to fetch ratings\<close> and loads no rating, so no rating comes with the name and
  email of its rater.
\<close>

theorem owner_does_not_get_rater_fields:
  "so_profile owner_dashboard = Some olivia \<and>
   filter (\<lambda>s. s_owner_id s = p_id olivia) (stores sample_db) = [store_X] \<and>
   map r_id (filter (\<lambda>r. r_store_id r = s_id store_X) (ratings sample_db)) = [200, 201, 202] \<and>
   api_select_ratings_with_profiles (authenticated (p_user_id olivia)) sample_db tiebreak
       (s_id store_X)
     = Inl (infinite_recursion rel_profiles) \<and>
   fetchRatings (authenticated (p_user_id olivia)) sample_db tiebreak owner_dashboard
     = (owner_dashboard, [toast_error ''Failed to fetch ratings'']) \<and>
   so_ratings (fst (fetchRatings (authenticated (p_user_id olivia)) sample_db tiebreak
                      owner_dashboard)) = []"
proof -
  have a: "so_profile owner_dashboard = Some olivia"
    by (simp add: owner_dashboard_def)
  have b: "filter (\<lambda>s. s_owner_id s = p_id olivia) (stores sample_db) = [store_X]"
    by (simp add: sample_db_def store_X_def store_Y_def olivia_def)
  have c: "map r_id (filter (\<lambda>r. r_store_id r = s_id store_X) (ratings sample_db)) = [200, 201, 202]"
    by (simp add: sample_db_def store_X_def mk_rating_def)
  have e: "api_select_ratings_with_profiles (authenticated (p_user_id olivia)) sample_db tiebreak
       (s_id store_X) = Inl (infinite_recursion rel_profiles)"
    by (simp add: api_select_ratings_with_profiles_def rewrite_ratings_select
        rewrite_profiles_select)
  have f: "fetchRatings (authenticated (p_user_id olivia)) sample_db tiebreak owner_dashboard
     = (owner_dashboard, [toast_error ''Failed to fetch ratings''])"
    by (simp add: fetchRatings_def a api_select_stores_eq b single_def e)
  have g: "so_ratings (fst (fetchRatings (authenticated (p_user_id olivia)) sample_db tiebreak
                      owner_dashboard)) = []"
    unfolding f by (simp add: owner_dashboard_def)
  from a b c e f g show ?thesis by (intro conjI)
qed

section \<open>Submitting a rating twice\<close>


end
